theory Spec2Isabelle
  imports Main "HOL-Library.Char_ord" "HOL-Library.List_Lexorder"
begin

section \<open>SpriteVisu: from SPRITE clusters to pairwise contacts\<close>

text \<open>
  A shallow embedding of \<^verbatim>\<open>HeatmapMultiVisu.py\<close> (class \<^verbatim>\<open>SpriteVisu\<close>) and of
  the driver \<^verbatim>\<open>main_mv.py\<close>.

  Conventions of the embedding.
  \<^item> A Python \<^verbatim>\<open>str\<close> is a \<open>string\<close>; characters are the code points below 256, ordered by
    code point, so \<open><\<close> on \<open>string\<close> is Python's comparison of strings.
  \<^item> A Python \<^verbatim>\<open>int\<close> is an \<open>int\<close>.
  \<^item> A \<^verbatim>\<open>dict\<close> (also \<^verbatim>\<open>defaultdict\<close>) is an association list with pairwise different keys,
    in insertion order, which is the order in which Python iterates it.
  \<^item> A \<^verbatim>\<open>set\<close> of integers is kept as the list of its elements in the order of their first
    insertion. Python does not iterate a set in this order but in the order of its hash
    table, which the insertions determine. The functions that iterate a set therefore take
    a parameter \<open>iter\<close>: \<open>iter xs\<close> is the order in which the interpreter iterates the set
    built by the insertions \<open>xs\<close>. Nothing is assumed of \<open>iter\<close> but, where a statement needs
    it, that it enumerates the set (\<open>enumerates\<close> below).
  \<^item> An exception is a value \<open>Inl e\<close>; everything that raises in the source is a branch.
  \<^item> The file system is a record \<open>world\<close>. \<^verbatim>\<open>os.path.join(d, n)\<close> is the pair \<open>(d, n)\<close>.
    Writing a file and the SQLite statements succeed. Database files are kept apart from
    the other files, and a database file holds the rows of its table \<^verbatim>\<open>contacts\<close>.
  \<^item> The library calls \<^verbatim>\<open>open\<close>, \<^verbatim>\<open>json.load\<close> and \<^verbatim>\<open>argparse\<close> are not modelled: the size
    reference file is given by what \<^verbatim>\<open>open\<close> and \<^verbatim>\<open>json.load\<close> do with it (the exception
    they raise, or the value they return), the command line by its parsed arguments. The
    cluster file is either absent or a text file given by its lines.
\<close>

subsection \<open>Exceptions\<close>

text \<open>
  The exception classes that the program can end with. The first five are raised by
  \<^verbatim>\<open>open\<close> (\<^verbatim>\<open>OSError\<close> stands for every other subclass of \<^verbatim>\<open>OSError\<close>), the next two
  by \<^verbatim>\<open>json.load\<close>, the others by the statements of the program itself.
\<close>

datatype error =
    FileNotFoundError | IsADirectoryError | PermissionError | NotADirectoryError | OSError
  | UnicodeDecodeError | JSONDecodeError
  | KeyError | TypeError | AttributeError | IndexError | ValueError

subsection \<open>Strings: \<^verbatim>\<open>str(int)\<close>, \<^verbatim>\<open>int(str)\<close>, \<^verbatim>\<open>split\<close>, \<^verbatim>\<open>rsplit\<close>\<close>

definition digit_char :: "nat \<Rightarrow> char" where
  "digit_char d = char_of (48 + d)"

fun str_nat :: "nat \<Rightarrow> string" where
  "str_nat n = (if n < 10 then [digit_char n] else str_nat (n div 10) @ [digit_char (n mod 10)])"

declare str_nat.simps [simp del]

text \<open>\<^verbatim>\<open>f"{i}"\<close> for an integer \<open>i\<close>: its decimal numeral, with a minus sign when negative.\<close>

definition str_int :: "int \<Rightarrow> string" where
  "str_int i = (if i < 0 then CHR ''-'' # str_nat (nat (- i)) else str_nat (nat i))"

definition is_digit :: "char \<Rightarrow> bool" where
  "is_digit c = (48 \<le> (of_char c :: nat) \<and> (of_char c :: nat) \<le> 57)"

definition digit_val :: "char \<Rightarrow> nat" where
  "digit_val c = of_char c - 48"

text \<open>
  \<^verbatim>\<open>str.isspace\<close> on the code points below 256: tab, line feed, vertical tab, form feed,
  carriage return, the separators 28 to 31, space, next line (133) and no-break space (160).
\<close>

definition is_space :: "char \<Rightarrow> bool" where
  "is_space c = (let n = (of_char c :: nat) in
     (9 \<le> n \<and> n \<le> 13) \<or> (28 \<le> n \<and> n \<le> 32) \<or> n = 133 \<or> n = 160)"

text \<open>
  The digits of a Python integer literal after its first digit: digits, with single
  underscores allowed between two digits.
\<close>

fun py_digits :: "nat \<Rightarrow> string \<Rightarrow> nat option" where
  "py_digits acc [] = Some acc"
| "py_digits acc (c # cs) =
     (if is_digit c then py_digits (10 * acc + digit_val c) cs
      else if c = CHR ''_'' then
        (case cs of [] \<Rightarrow> None | d # _ \<Rightarrow> if is_digit d then py_digits acc cs else None)
      else None)"

definition py_unsigned :: "string \<Rightarrow> nat option" where
  "py_unsigned s =
     (case s of [] \<Rightarrow> None | c # cs \<Rightarrow> if is_digit c then py_digits (digit_val c) cs else None)"

text \<open>
  The white space that \<^verbatim>\<open>int\<close> removes around a number. CPython turns the white space
  above code point 127 (here 133 and 160) into spaces and then skips what the C function
  \<^verbatim>\<open>isspace\<close> accepts: the separators 28 to 31 are not skipped.
\<close>

definition is_int_space :: "char \<Rightarrow> bool" where
  "is_int_space c = (let n = (of_char c :: nat) in
     (9 \<le> n \<and> n \<le> 13) \<or> n = 32 \<or> n = 133 \<or> n = 160)"

definition strip :: "string \<Rightarrow> string" where
  "strip s = rev (dropWhile is_int_space (rev (dropWhile is_int_space s)))"

text \<open>
  \<^verbatim>\<open>int(s)\<close> in base 10: surrounding white space, an optional sign, then the digits.
  \<open>None\<close> is the \<^verbatim>\<open>ValueError\<close>. (The limit of CPython 3.11 on the number of digits of a
  converted string is a setting of the interpreter and is not part of the model.)
\<close>

definition py_int :: "string \<Rightarrow> int option" where
  "py_int s =
     (case strip s of
        [] \<Rightarrow> None
      | c # cs \<Rightarrow>
          if c = CHR ''-'' then map_option (\<lambda>n. - int n) (py_unsigned cs)
          else if c = CHR ''+'' then map_option int (py_unsigned cs)
          else map_option int (py_unsigned (c # cs)))"

text \<open>\<^verbatim>\<open>s.split()\<close>: the maximal runs of characters that are not white space.\<close>

fun split_ws :: "string \<Rightarrow> string \<Rightarrow> string list" where
  "split_ws cur [] = (if cur = [] then [] else [cur])"
| "split_ws cur (c # cs) =
     (if is_space c then (if cur = [] then split_ws [] cs else cur # split_ws [] cs)
      else split_ws (cur @ [c]) cs)"

definition py_split :: "string \<Rightarrow> string list" where
  "py_split s = split_ws [] s"

text \<open>\<^verbatim>\<open>s.split(sep)\<close> for a one-character separator: every occurrence splits.\<close>

fun split_on :: "char \<Rightarrow> string \<Rightarrow> string list" where
  "split_on sep [] = [[]]"
| "split_on sep (c # cs) =
     (if c = sep then [] # split_on sep cs
      else (case split_on sep cs of [] \<Rightarrow> [[c]] | p # ps \<Rightarrow> (c # p) # ps))"

text \<open>\<^verbatim>\<open>s.split(sep, 1)\<close>: only the first occurrence splits.\<close>

definition split1 :: "char \<Rightarrow> string \<Rightarrow> string list" where
  "split1 sep s =
     (if sep \<in> set s then [takeWhile (\<lambda>c. c \<noteq> sep) s, drop 1 (dropWhile (\<lambda>c. c \<noteq> sep) s)]
      else [s])"

text \<open>\<^verbatim>\<open>s.rsplit(sep, 1)\<close>: only the last occurrence splits.\<close>

definition rsplit1 :: "char \<Rightarrow> string \<Rightarrow> string list" where
  "rsplit1 sep s =
     (if sep \<in> set s
      then [rev (drop 1 (dropWhile (\<lambda>c. c \<noteq> sep) (rev s))), rev (takeWhile (\<lambda>c. c \<noteq> sep) (rev s))]
      else [s])"

text \<open>\<^verbatim>\<open>a, b = xs\<close>: a \<^verbatim>\<open>ValueError\<close> unless \<open>xs\<close> has exactly two elements.\<close>

definition unpack2 :: "'a list \<Rightarrow> error + ('a \<times> 'a)" where
  "unpack2 xs = (case xs of [a, b] \<Rightarrow> Inr (a, b) | _ \<Rightarrow> Inl ValueError)"

subsection \<open>JSON values and the size reference file\<close>

datatype json =
    JNull | JBool bool | JNumber int | JString string
  | JArray "json list" | JObject "(string \<times> json) list"

text \<open>
  Why \<^verbatim>\<open>open(path, 'r')\<close> fails: nothing at the path, a directory, no permission to read,
  a component of the path that is not a directory, or another failure of the operating
  system.
\<close>

datatype open_failure = NoSuchFile | IsDirectory | NoPermission | NotDirectory | OtherFailure

fun open_error :: "open_failure \<Rightarrow> error" where
  "open_error NoSuchFile = FileNotFoundError"
| "open_error IsDirectory = IsADirectoryError"
| "open_error NoPermission = PermissionError"
| "open_error NotDirectory = NotADirectoryError"
| "open_error OtherFailure = OSError"

text \<open>
  Why \<^verbatim>\<open>json.load\<close> fails on an open file: its bytes are not text in the encoding of
  \<^verbatim>\<open>open\<close>, or the text is not JSON.
\<close>

datatype load_failure = NotText | NotJSON

fun load_error :: "load_failure \<Rightarrow> error" where
  "load_error NotText = UnicodeDecodeError"
| "load_error NotJSON = JSONDecodeError"

text \<open>
  The size reference file, by what \<^verbatim>\<open>open\<close> and \<^verbatim>\<open>json.load\<close> do with it: \<^verbatim>\<open>open\<close>
  fails, \<^verbatim>\<open>json.load\<close> fails, or \<^verbatim>\<open>json.load\<close> returns a JSON value. An object lists its
  members as written; \<^verbatim>\<open>json.load\<close> keeps the last of several members with one name.
\<close>

datatype size_file = Unopenable open_failure | Unloadable load_failure | Parsed json

subsection \<open>The class \<^verbatim>\<open>SpriteVisu\<close>\<close>

record sprite_visu =
  cluster_file :: "string list option"
  max_cluster_size :: int
  min_cluster_size :: int
  contact_lists :: "(string \<times> string list) list"
  start_only :: bool
  genomic_sizes :: json
  chromosome_list :: "string list"

text \<open>
  \<open>cluster_file\<close> stands for the path of the cluster file: \<open>None\<close> when no file is there,
  otherwise its lines.
\<close>

text \<open>
  \<^verbatim>\<open>self._genomic_sizes["chromosomes"].keys()\<close>: subscripting a JSON value that is not an
  object is a \<^verbatim>\<open>TypeError\<close>, a missing member a \<^verbatim>\<open>KeyError\<close>, and a member that is not an
  object has no \<^verbatim>\<open>keys\<close>.
\<close>

definition chromosome_keys :: "json \<Rightarrow> error + string list" where
  "chromosome_keys j =
     (case j of
        JObject members \<Rightarrow>
          (case map_of (rev members) ''chromosomes'' of
             None \<Rightarrow> Inl KeyError
           | Some (JObject sizes) \<Rightarrow> Inr (map fst sizes)
           | Some _ \<Rightarrow> Inl AttributeError)
      | _ \<Rightarrow> Inl TypeError)"

definition init :: "string list option \<Rightarrow> size_file \<Rightarrow> int \<Rightarrow> int \<Rightarrow> bool \<Rightarrow> error + sprite_visu" where
  "init cluster_file' genomic_size_file max_cluster min_cluster start_only' =
     (case genomic_size_file of
        Unopenable f \<Rightarrow> Inl (open_error f)
      | Unloadable f \<Rightarrow> Inl (load_error f)
      | Parsed j \<Rightarrow>
          (case chromosome_keys j of
             Inl e \<Rightarrow> Inl e
           | Inr keys \<Rightarrow>
               Inr \<lparr>cluster_file = cluster_file',
                    max_cluster_size = max_cluster,
                    min_cluster_size = min_cluster,
                    contact_lists = [],
                    start_only = start_only',
                    genomic_sizes = j,
                    chromosome_list = keys\<rparr>))"

text \<open>\<^verbatim>\<open>d[key].append(v)\<close> on a \<^verbatim>\<open>defaultdict(list)\<close>.\<close>

fun dd_append :: "('k \<times> 'v list) list \<Rightarrow> 'k \<Rightarrow> 'v \<Rightarrow> ('k \<times> 'v list) list" where
  "dd_append [] k v = [(k, [v])]"
| "dd_append ((k', vs) # d) k v =
     (if k' = k then (k', vs @ [v]) # d else (k', vs) # dd_append d k v)"

text \<open>The lines stored under a key; a key that is absent has none.\<close>

definition lines_of :: "('k \<times> 'v list) list \<Rightarrow> 'k \<Rightarrow> 'v list" where
  "lines_of d k = (case map_of d k of None \<Rightarrow> [] | Some vs \<Rightarrow> vs)"

definition pair_key :: "string \<Rightarrow> string \<Rightarrow> string" where
  "pair_key chrom1 chrom2 = chrom1 @ ''-'' @ chrom2"

definition contact_line :: "int \<Rightarrow> int \<Rightarrow> int \<Rightarrow> string" where
  "contact_line start1 start2 inc2 = str_int start1 @ '','' @ str_int start2 @ '','' @ str_int inc2"

definition add_contact_to_list ::
  "sprite_visu \<Rightarrow> string \<Rightarrow> string \<Rightarrow> int \<Rightarrow> string \<Rightarrow> int \<Rightarrow> int \<Rightarrow> int \<Rightarrow> sprite_visu" where
  "add_contact_to_list self cluster_id chrom1 start1 chrom2 start2 inc1 inc2 =
     (if chrom1 \<notin> set (chromosome_list self) \<or> chrom2 \<notin> set (chromosome_list self) then self
      else
        let (chrom1', chrom2', start1', start2') =
              (if chrom1 > chrom2 then (chrom2, chrom1, start2, start1)
               else (chrom1, chrom2, start1, start2));
            contact_key = pair_key chrom1' chrom2'
        in self\<lparr>contact_lists :=
                   dd_append (contact_lists self) contact_key (contact_line start1' start2' inc2)\<rparr>)"

subsection \<open>Bins: a \<^verbatim>\<open>defaultdict(set)\<close> from chromosome to start positions\<close>

text \<open>
  \<^verbatim>\<open>s.add(x)\<close> on the list of the elements of \<open>s\<close> in the order of their first insertion.
  This list stands for the set and its history; the order of iteration is \<open>iter\<close> of it.
\<close>

definition set_add :: "int list \<Rightarrow> int \<Rightarrow> int list" where
  "set_add bin_set x = (if x \<in> set bin_set then bin_set else bin_set @ [x])"

text \<open>\<^verbatim>\<open>bins[chrom].add(x)\<close>\<close>

fun bins_add :: "(string \<times> int list) list \<Rightarrow> string \<Rightarrow> int \<Rightarrow> (string \<times> int list) list" where
  "bins_add [] chrom x = [(chrom, set_add [] x)]"
| "bins_add ((chrom', bin_set) # bins) chrom x =
     (if chrom' = chrom then (chrom', set_add bin_set x) # bins
      else (chrom', bin_set) # bins_add bins chrom x)"

subsection \<open>The relational sink\<close>

text \<open>
  A row of the table \<^verbatim>\<open>contacts\<close>: (chromosome, start, end, cluster\_id) in full mode,
  (chromosome, start, cluster\_id) in start-only mode. The values are the strings handed to
  \<^verbatim>\<open>cur.execute\<close>.
\<close>

datatype row = Row4 string string string string | Row3 string string string

subsection \<open>One read of a cluster\<close>

text \<open>
  The body of \<^verbatim>\<open>for read in reads\<close>. The state is the bins of the cluster and the rows
  inserted so far. The bin is extended before the row is inserted, so a start that is not an
  integer inserts no row.
\<close>

definition read_step ::
  "bool \<Rightarrow> string \<Rightarrow> (string \<times> int list) list \<times> row list \<Rightarrow> string
     \<Rightarrow> error + (string \<times> int list) list \<times> row list" where
  "read_step start_only' cluster_id st read =
     (case st of (bins, rows) \<Rightarrow>
        if \<not> start_only' then
          (case unpack2 (rsplit1 CHR ''_'' read) of
             Inl e \<Rightarrow> Inl e
           | Inr (_, coord) \<Rightarrow>
               (case unpack2 (split_on CHR '':'' coord) of
                  Inl e \<Rightarrow> Inl e
                | Inr (chrom, position) \<Rightarrow>
                    (case unpack2 (split_on CHR ''-'' position) of
                       Inl e \<Rightarrow> Inl e
                     | Inr (start, end') \<Rightarrow>
                         (case py_int start of
                            None \<Rightarrow> Inl ValueError
                          | Some x \<Rightarrow>
                              Inr (bins_add bins chrom x,
                                   rows @ [Row4 chrom start end' cluster_id])))))
        else
          (case unpack2 (split1 CHR '':'' read) of
             Inl e \<Rightarrow> Inl e
           | Inr (chrom, start) \<Rightarrow>
               (case py_int start of
                  None \<Rightarrow> Inl ValueError
                | Some x \<Rightarrow>
                    Inr (bins_add bins chrom x, rows @ [Row3 chrom start cluster_id]))))"

fun read_loop ::
  "bool \<Rightarrow> string \<Rightarrow> (string \<times> int list) list \<times> row list \<Rightarrow> string list
     \<Rightarrow> error + (string \<times> int list) list \<times> row list" where
  "read_loop start_only' cluster_id st [] = Inr st"
| "read_loop start_only' cluster_id st (read # reads) =
     (case read_step start_only' cluster_id st read of
        Inl e \<Rightarrow> Inl e
      | Inr st' \<Rightarrow> read_loop start_only' cluster_id st' reads)"

subsection \<open>Contacts of one cluster\<close>

text \<open>\<^verbatim>\<open>itertools.combinations(xs, 2)\<close>, in its order.\<close>

fun combinations2 :: "'a list \<Rightarrow> ('a \<times> 'a) list" where
  "combinations2 [] = []"
| "combinations2 (x # xs) = map (Pair x) xs @ combinations2 xs"

text \<open>
  The body of \<^verbatim>\<open>for chrom, bin_set in bins.items()\<close>. \<^verbatim>\<open>combinations\<close> iterates the set,
  \<^verbatim>\<open>len\<close> counts its elements.
\<close>

definition intra_chrom ::
  "(int list \<Rightarrow> int list) \<Rightarrow> string \<Rightarrow> int \<Rightarrow> sprite_visu \<Rightarrow> string \<times> int list
     \<Rightarrow> sprite_visu" where
  "intra_chrom iter cluster_id reads_len self b =
     (case b of (chrom, bin_set) \<Rightarrow>
        let inc1 = length bin_set in
        if inc1 > 1 then
          foldl (\<lambda>self (start1, start2).
                   let inc2 = int (length bin_set) in
                   add_contact_to_list self cluster_id chrom start1 chrom start2 reads_len inc2)
            self (combinations2 (iter bin_set))
        else self)"

definition intra_contacts ::
  "(int list \<Rightarrow> int list) \<Rightarrow> sprite_visu \<Rightarrow> string \<Rightarrow> (string \<times> int list) list \<Rightarrow> int
     \<Rightarrow> sprite_visu" where
  "intra_contacts iter self cluster_id bins reads_len =
     foldl (intra_chrom iter cluster_id reads_len) self bins"

text \<open>
  The body of the two loops over \<open>i < j\<close>: the loops over \<^verbatim>\<open>bin_set1\<close> and
  \<^verbatim>\<open>bin_set2\<close>, each of which iterates its set.
\<close>

definition inter_pair ::
  "(int list \<Rightarrow> int list) \<Rightarrow> string \<Rightarrow> int \<Rightarrow> sprite_visu \<Rightarrow> string \<times> int list
     \<Rightarrow> string \<times> int list \<Rightarrow> sprite_visu" where
  "inter_pair iter cluster_id reads_len self b1 b2 =
     (case (b1, b2) of ((chrom1, bin_set1), (chrom2, bin_set2)) \<Rightarrow>
        let inc1 = int (length bin_set1) + int (length bin_set2);
            inc2 = inc1
        in foldl (\<lambda>self start1.
                    foldl (\<lambda>self start2.
                             add_contact_to_list self cluster_id chrom1 start1 chrom2 start2
                               reads_len inc2)
                      self (iter bin_set2))
             self (iter bin_set1))"

text \<open>
  \<^verbatim>\<open>for i in range(len(chrom_list)): for j in range(i + 1, len(chrom_list))\<close>: the head of
  the list is \<open>i\<close>, the elements after it are the \<open>j\<close>. The keys of \<open>bins\<close> are pairwise
  different, so \<^verbatim>\<open>bins[chrom_list[i]]\<close> is the set of the \<open>i\<close>-th entry.
\<close>

fun inter_loop ::
  "(int list \<Rightarrow> int list) \<Rightarrow> string \<Rightarrow> int \<Rightarrow> sprite_visu \<Rightarrow> (string \<times> int list) list
     \<Rightarrow> sprite_visu" where
  "inter_loop iter cluster_id reads_len self [] = self"
| "inter_loop iter cluster_id reads_len self (b1 # bins) =
     inter_loop iter cluster_id reads_len
       (foldl (\<lambda>self b2. inter_pair iter cluster_id reads_len self b1 b2) self bins) bins"

definition inter_contacts ::
  "(int list \<Rightarrow> int list) \<Rightarrow> sprite_visu \<Rightarrow> string \<Rightarrow> (string \<times> int list) list \<Rightarrow> int
     \<Rightarrow> sprite_visu" where
  "inter_contacts iter self cluster_id bins reads_len =
     (if length bins > 1 then inter_loop iter cluster_id reads_len self bins else self)"

subsection \<open>One line of the cluster file\<close>

text \<open>
  The body of \<^verbatim>\<open>for line in file\<close>. The state is the object and the rows inserted so far.
  A line without any token raises at \<^verbatim>\<open>data_split[0]\<close>. A cluster outside the size bounds
  is left by \<^verbatim>\<open>continue\<close> before its reads are looked at. (What the source prints on
  standard output for such a cluster is not part of the model.)
\<close>

definition process_line ::
  "(int list \<Rightarrow> int list) \<Rightarrow> sprite_visu \<times> row list \<Rightarrow> string
     \<Rightarrow> error + sprite_visu \<times> row list" where
  "process_line iter st line =
     (case st of (self, rows) \<Rightarrow>
        let data_split = py_split line;
            reads = drop 1 data_split
        in case data_split of
             [] \<Rightarrow> Inl IndexError
           | cluster_id # _ \<Rightarrow>
               let reads_len = int (length reads) in
               if \<not> (min_cluster_size self \<le> reads_len \<and> reads_len \<le> max_cluster_size self)
               then Inr (self, rows)
               else
                 (case read_loop (start_only self) cluster_id ([], rows) reads of
                    Inl e \<Rightarrow> Inl e
                  | Inr (bins, rows') \<Rightarrow>
                      Inr (inter_contacts iter
                             (intra_contacts iter self cluster_id bins reads_len)
                             cluster_id bins reads_len,
                           rows')))"

fun line_loop ::
  "(int list \<Rightarrow> int list) \<Rightarrow> sprite_visu \<times> row list \<Rightarrow> string list
     \<Rightarrow> error + sprite_visu \<times> row list" where
  "line_loop iter st [] = Inr st"
| "line_loop iter st (line # lines) =
     (case process_line iter st line of Inl e \<Rightarrow> Inl e | Inr st' \<Rightarrow> line_loop iter st' lines)"

subsection \<open>The output directory\<close>

datatype content = Text string | Json json

type_synonym path = "string \<times> string"

record world =
  dirs :: "string set"
  files :: "path \<rightharpoonup> content"
  tables :: "path \<rightharpoonup> row list"

definition makedirs :: "string \<Rightarrow> world \<Rightarrow> world" where
  "makedirs d w = w\<lparr>dirs := insert d (dirs w)\<rparr>"

definition save_meta :: "sprite_visu \<Rightarrow> string \<Rightarrow> world \<Rightarrow> world" where
  "save_meta self directory w =
     w\<lparr>files := (files w)((directory, ''meta.json'') \<mapsto> Json (genomic_sizes self))\<rparr>"

text \<open>\<^verbatim>\<open>sqlite3.connect\<close> followed by \<^verbatim>\<open>CREATE TABLE IF NOT EXISTS contacts\<close>.\<close>

definition connect_create :: "path \<Rightarrow> world \<Rightarrow> world" where
  "connect_create p w =
     w\<lparr>tables := (tables w)(p \<mapsto> (case tables w p of None \<Rightarrow> [] | Some rows \<Rightarrow> rows))\<rparr>"

text \<open>\<^verbatim>\<open>conn.commit()\<close>: the rows inserted during the pass reach the table.\<close>

definition commit :: "path \<Rightarrow> row list \<Rightarrow> world \<Rightarrow> world" where
  "commit p rows w =
     w\<lparr>tables := (tables w)(p \<mapsto> (case tables w p of None \<Rightarrow> [] | Some old \<Rightarrow> old) @ rows)\<rparr>"

text \<open>\<^verbatim>\<open>sep.join(xs)\<close>\<close>

fun join :: "string \<Rightarrow> string list \<Rightarrow> string" where
  "join sep [] = []"
| "join sep [x] = x"
| "join sep (x # y # ys) = x @ sep @ join sep (y # ys)"

definition contact_file :: "string \<Rightarrow> string \<Rightarrow> path" where
  "contact_file output_dir contact_key = (output_dir, contact_key @ ''.txt'')"

definition write_contact_files :: "sprite_visu \<Rightarrow> string \<Rightarrow> world \<Rightarrow> world" where
  "write_contact_files self output_dir w =
     foldl (\<lambda>w (contact_key, contacts).
              w\<lparr>files := (files w)(contact_file output_dir contact_key \<mapsto>
                                      Text (join [CHR 0x0A] contacts))\<rparr>)
       (if output_dir \<notin> dirs w then makedirs output_dir w else w)
       (contact_lists self)"

definition db_file :: "sprite_visu \<Rightarrow> string \<Rightarrow> path" where
  "db_file self output =
     (output, if start_only self then ''cluster_id_reads-startonly.db'' else ''cluster_id_reads.db'')"

text \<open>
  \<^verbatim>\<open>generate_hsv\<close> returns the exception or the object after the pass, with the world it
  leaves. An exception during the pass leaves the directory, \<^verbatim>\<open>meta.json\<close> and the database
  with its table; the rows inserted so far were never committed.
\<close>

definition generate_hsv ::
  "(int list \<Rightarrow> int list) \<Rightarrow> sprite_visu \<Rightarrow> string \<Rightarrow> world
     \<Rightarrow> (error + sprite_visu) \<times> world" where
  "generate_hsv iter self output w =
     (let w1 = save_meta self output (makedirs output w);
          w2 = connect_create (db_file self output) w1
      in case cluster_file self of
           None \<Rightarrow> (Inl FileNotFoundError, w2)
         | Some lines \<Rightarrow>
             (case line_loop iter (self, []) lines of
                Inl e \<Rightarrow> (Inl e, w2)
              | Inr (self', rows) \<Rightarrow>
                  (Inr self',
                   commit (db_file self output) rows (write_contact_files self' output w2))))"

text \<open>\<^verbatim>\<open>main\<close> of \<^verbatim>\<open>main_mv.py\<close>, from the parsed arguments.\<close>

definition main ::
  "(int list \<Rightarrow> int list) \<Rightarrow> string list option \<Rightarrow> size_file \<Rightarrow> string \<Rightarrow> int \<Rightarrow> int
     \<Rightarrow> bool \<Rightarrow> world \<Rightarrow> (error + sprite_visu) \<times> world" where
  "main iter cluster_filepath genomic_size_filepath output_filepath max_cluster_size'
      min_cluster_size' start_only' w =
     (case init cluster_filepath genomic_size_filepath max_cluster_size' min_cluster_size' start_only' of
        Inl e \<Rightarrow> (Inl e, w)
      | Inr sprite_visu \<Rightarrow> generate_hsv iter sprite_visu output_filepath w)"

subsection \<open>Notions used in the statements\<close>

text \<open>
  An iteration order enumerates the sets: it lists the elements that were inserted, each
  once.
\<close>

definition enumerates :: "(int list \<Rightarrow> int list) \<Rightarrow> bool" where
  "enumerates iter = (\<forall>xs. distinct xs \<longrightarrow> distinct (iter xs) \<and> set (iter xs) = set xs)"

text \<open>The keys that two recognised chromosome names can form.\<close>

definition valid_keys :: "string list \<Rightarrow> string set" where
  "valid_keys chroms = (\<lambda>(a, b). pair_key a b) ` (set chroms \<times> set chroms)"

text \<open>The number of reads of a line when its cluster is within the size bounds, else 0.\<close>

definition eligible_reads :: "int \<Rightarrow> int \<Rightarrow> string \<Rightarrow> nat" where
  "eligible_reads min_size max_size line =
     (let n = length (drop 1 (py_split line))
      in if min_size \<le> int n \<and> int n \<le> max_size then n else 0)"

text \<open>
  A read token that is malformed. In full mode: no underscore; or, in the part after the last
  underscore, no colon, no hyphen, or a start (the text between the first colon and the
  hyphen after it) that is not an integer. In start-only mode: no colon, or a start (the text
  after the first colon) that is not an integer.
\<close>

definition malformed :: "bool \<Rightarrow> string \<Rightarrow> bool" where
  "malformed start_only' read =
     (if \<not> start_only' then
        CHR ''_'' \<notin> set read \<or>
        (let coord = rev (takeWhile (\<lambda>c. c \<noteq> CHR ''_'') (rev read))
         in CHR '':'' \<notin> set coord \<or> CHR ''-'' \<notin> set coord \<or>
            py_int (takeWhile (\<lambda>c. c \<noteq> CHR ''-'')
                      (drop 1 (dropWhile (\<lambda>c. c \<noteq> CHR '':'') coord))) = None)
      else
        CHR '':'' \<notin> set read \<or>
        py_int (drop 1 (dropWhile (\<lambda>c. c \<noteq> CHR '':'') read)) = None)"

text \<open>
  A JSON value that is an object; and the member of a name in an object (the last one of
  this name), which a value that is not an object does not have.
\<close>

definition is_object :: "json \<Rightarrow> bool" where
  "is_object j = (case j of JObject _ \<Rightarrow> True | _ \<Rightarrow> False)"

definition member :: "json \<Rightarrow> string \<Rightarrow> json option" where
  "member j name = (case j of JObject members \<Rightarrow> map_of (rev members) name | _ \<Rightarrow> None)"

text \<open>
  A size reference with the expected top-level mapping: its member \<^verbatim>\<open>chromosomes\<close> is an
  object.
\<close>

definition has_chromosome_mapping :: "json \<Rightarrow> bool" where
  "has_chromosome_mapping j =
     (case member j ''chromosomes'' of None \<Rightarrow> False | Some v \<Rightarrow> is_object v)"

subsection \<open>Example data\<close>

text \<open>
  An iteration order for the examples: by residue modulo 8, the slot of a small integer in a
  hash table of eight slots; elements of one residue stay in the order of their insertion.
\<close>

definition slot_order :: "int list \<Rightarrow> int list" where
  "slot_order xs = sort_key (\<lambda>x. x mod 8) xs"

definition example_registry :: json where
  "example_registry =
     JObject [(''chromosomes'', JObject [(''chr1'', JNumber 100), (''chr2'', JNumber 100)])]"

definition example_visu :: sprite_visu where
  "example_visu =
     \<lparr>cluster_file = None, max_cluster_size = 10, min_cluster_size = 2, contact_lists = [],
      start_only = False, genomic_sizes = example_registry,
      chromosome_list = [''chr1'', ''chr2'']\<rparr>"

definition empty_world :: world where
  "empty_world = \<lparr>dirs = {}, files = Map.empty, tables = Map.empty\<rparr>"

text \<open>The line of the end-to-end scenario, and the object after a run over it.\<close>

definition example_line :: string where
  "example_line = ''c1 readA_chr1:10-20 readB_chr1:30-40 readC_chr2:5-15''"

definition example_result :: sprite_visu where
  "example_result =
     example_visu\<lparr>cluster_file := Some [example_line],
       contact_lists := [(''chr1-chr1'', [''10,30,2'']), (''chr1-chr2'', [''10,5,3'', ''30,5,3''])]\<rparr>"

section \<open>Properties\<close>

subsection \<open>The contact store\<close>

lemma lines_of_dd_append:
  "lines_of (dd_append d k v) k' = (if k' = k then lines_of d k @ [v] else lines_of d k')"
  by (induction d k v rule: dd_append.induct) (auto simp: lines_of_def)

lemma keys_dd_append: "fst ` set (dd_append d k v) = insert k (fst ` set d)"
  by (induction d k v rule: dd_append.induct) auto

lemma map_fst_dd_append:
  "map fst (dd_append d k v) = (if k \<in> fst ` set d then map fst d else map fst d @ [k])"
  by (induction d k v rule: dd_append.induct) (auto simp: image_iff)

lemma distinct_dd_append: "distinct (map fst d) \<Longrightarrow> distinct (map fst (dd_append d k v))"
  by (simp add: map_fst_dd_append)

lemma add_contact_invalid:
  "chrom1 \<notin> set (chromosome_list self) \<or> chrom2 \<notin> set (chromosome_list self)
   \<Longrightarrow> add_contact_to_list self cid chrom1 s1 chrom2 s2 i1 i2 = self"
  by (simp add: add_contact_to_list_def)

lemma add_contact_valid:
  "chrom1 \<in> set (chromosome_list self) \<Longrightarrow> chrom2 \<in> set (chromosome_list self)
   \<Longrightarrow> add_contact_to_list self cid chrom1 s1 chrom2 s2 i1 i2 =
       self\<lparr>contact_lists := dd_append (contact_lists self) (pair_key (min chrom1 chrom2) (max chrom1 chrom2))
          (if chrom1 \<le> chrom2 then contact_line s1 s2 i2 else contact_line s2 s1 i2)\<rparr>"
  by (auto simp: add_contact_to_list_def min_def max_def)

lemma add_contact_fields:
  "cluster_file (add_contact_to_list self cid c1 s1 c2 s2 i1 i2) = cluster_file self"
  "max_cluster_size (add_contact_to_list self cid c1 s1 c2 s2 i1 i2) = max_cluster_size self"
  "min_cluster_size (add_contact_to_list self cid c1 s1 c2 s2 i1 i2) = min_cluster_size self"
  "start_only (add_contact_to_list self cid c1 s1 c2 s2 i1 i2) = start_only self"
  "genomic_sizes (add_contact_to_list self cid c1 s1 c2 s2 i1 i2) = genomic_sizes self"
  "chromosome_list (add_contact_to_list self cid c1 s1 c2 s2 i1 i2) = chromosome_list self"
  by (simp_all add: add_contact_to_list_def Let_def split: prod.splits)

text \<open>Anything that every call of add_contact_to_list keeps is kept by the loops.\<close>


lemma foldl_preserves:
  assumes "\<And>s x. P s \<Longrightarrow> P (f s x)" and "P s"
  shows "P (foldl f s xs)"
  using assms(2) by (induction xs arbitrary: s) (simp_all add: assms(1))

lemma intra_chrom_preserves:
  assumes step: "\<And>self cid c1 s1 c2 s2 i1 i2. P self \<Longrightarrow> P (add_contact_to_list self cid c1 s1 c2 s2 i1 i2)"
    and "P self"
  shows "P (intra_chrom iter cid n self b)"
proof (cases b)
  case (Pair chrom bin_set)
  have "P (foldl (\<lambda>self (start1, start2).
                   add_contact_to_list self cid chrom start1 chrom start2 n (int (length bin_set)))
            self pairs)" for pairs
    by (rule foldl_preserves[where P = P]) (simp_all add: step assms(2) split: prod.splits)
  then show ?thesis
    using assms(2) by (simp add: intra_chrom_def Pair Let_def)
qed

lemma intra_contacts_preserves:
  assumes step: "\<And>self cid c1 s1 c2 s2 i1 i2. P self \<Longrightarrow> P (add_contact_to_list self cid c1 s1 c2 s2 i1 i2)"
    and "P self"
  shows "P (intra_contacts iter self cid bins n)"
  unfolding intra_contacts_def
  by (rule foldl_preserves[where P = P]) (simp_all add: intra_chrom_preserves[where P = P] step assms(2))

lemma inter_pair_preserves:
  assumes step: "\<And>self cid c1 s1 c2 s2 i1 i2. P self \<Longrightarrow> P (add_contact_to_list self cid c1 s1 c2 s2 i1 i2)"
    and "P self"
  shows "P (inter_pair iter cid n self b1 b2)"
proof -
  obtain chrom1 bin_set1 chrom2 bin_set2 where b: "b1 = (chrom1, bin_set1)" "b2 = (chrom2, bin_set2)"
    by (cases b1, cases b2) auto
  have inner: "P (foldl (\<lambda>self start2. add_contact_to_list self cid chrom1 start1 chrom2 start2 n w) s ys)"
    if "P s" for s start1 w ys
    by (rule foldl_preserves[where P = P]) (simp_all add: step that)
  have "P (foldl (\<lambda>self start1. foldl (\<lambda>self start2.
            add_contact_to_list self cid chrom1 start1 chrom2 start2 n w) self ys) self xs)" for w xs ys
    by (rule foldl_preserves[where P = P]) (simp_all add: inner assms(2))
  then show ?thesis by (simp add: inter_pair_def b Let_def)
qed

lemma inter_loop_preserves:
  assumes step: "\<And>self cid c1 s1 c2 s2 i1 i2. P self \<Longrightarrow> P (add_contact_to_list self cid c1 s1 c2 s2 i1 i2)"
    and "P self"
  shows "P (inter_loop iter cid n self bins)"
  using assms(2)
proof (induction bins arbitrary: self)
  case Nil
  then show ?case by simp
next
  case (Cons b bins)
  have "P (foldl (\<lambda>self b2. inter_pair iter cid n self b b2) self bins)"
    by (rule foldl_preserves[where P = P]) (simp_all add: inter_pair_preserves[where P = P] step Cons.prems)
  then show ?case by (simp add: Cons.IH)
qed

lemma inter_contacts_preserves:
  assumes step: "\<And>self cid c1 s1 c2 s2 i1 i2. P self \<Longrightarrow> P (add_contact_to_list self cid c1 s1 c2 s2 i1 i2)"
    and "P self"
  shows "P (inter_contacts iter self cid bins n)"
  by (simp add: inter_contacts_def inter_loop_preserves[where P = P] step assms(2))

lemma process_line_preserves:
  assumes step: "\<And>self cid c1 s1 c2 s2 i1 i2. P self \<Longrightarrow> P (add_contact_to_list self cid c1 s1 c2 s2 i1 i2)"
    and "P self" and "process_line iter (self, rows) line = Inr (self', rows')"
  shows "P self'"
proof -
  have both: "P (inter_contacts iter (intra_contacts iter self cid bins n) cid bins n)" for cid bins n
    by (rule inter_contacts_preserves[where P = P])
       (simp_all add: step intra_contacts_preserves[where P = P] assms(2))
  from assms(2,3) show ?thesis
    unfolding process_line_def
    by (auto simp: Let_def both split: list.splits if_splits sum.splits)
qed

lemma line_loop_preserves:
  assumes step: "\<And>self cid c1 s1 c2 s2 i1 i2. P self \<Longrightarrow> P (add_contact_to_list self cid c1 s1 c2 s2 i1 i2)"
    and "P self" and "line_loop iter (self, rows) lines = Inr (self', rows')"
  shows "P self'"
  using assms(2,3)
proof (induction lines arbitrary: self rows)
  case Nil
  then show ?case by simp
next
  case (Cons line lines)
  then obtain self1 rows1 where 1: "process_line iter (self, rows) line = Inr (self1, rows1)"
    and 2: "line_loop iter (self1, rows1) lines = Inr (self', rows')"
    by (auto split: sum.splits)
  from process_line_preserves[where P = P, OF step Cons.prems(1) 1] have "P self1" .
  from Cons.IH[OF this 2] show ?case .
qed

lemma dd_append_all:
  assumes "\<forall>(k, ls) \<in> set d. Q ls" and "Q [v]" and "\<And>ls. Q ls \<Longrightarrow> Q (ls @ [v])"
  shows "\<forall>(k, ls) \<in> set (dd_append d key v). Q ls"
  using assms(1) by (induction d) (auto simp: assms(2,3) split: if_splits)

lemma contact_line_nonempty: "contact_line s1 s2 w \<noteq> []"
  by (simp add: contact_line_def)

lemma add_contact_keys_valid:
  assumes "chromosome_list self = cl \<and> fst ` set (contact_lists self) \<subseteq> valid_keys cl"
  shows "chromosome_list (add_contact_to_list self cid c1 s1 c2 s2 i1 i2) = cl
         \<and> fst ` set (contact_lists (add_contact_to_list self cid c1 s1 c2 s2 i1 i2)) \<subseteq> valid_keys cl"
proof (cases "c1 \<in> set (chromosome_list self) \<and> c2 \<in> set (chromosome_list self)")
  case True
  then have "pair_key (min c1 c2) (max c1 c2) \<in> valid_keys cl"
    using assms by (auto simp: valid_keys_def min_def max_def)
  with True assms show ?thesis
    by (simp add: add_contact_valid keys_dd_append)
next
  case False
  with assms show ?thesis by (simp add: add_contact_invalid)
qed

lemma add_contact_distinct:
  assumes "distinct (map fst (contact_lists self))"
  shows "distinct (map fst (contact_lists (add_contact_to_list self cid c1 s1 c2 s2 i1 i2)))"
proof (cases "c1 \<in> set (chromosome_list self) \<and> c2 \<in> set (chromosome_list self)")
  case True
  with assms show ?thesis by (simp add: add_contact_valid distinct_dd_append)
next
  case False
  with assms show ?thesis by (simp add: add_contact_invalid)
qed

lemma add_contact_lines:
  assumes "\<forall>(k, ls) \<in> set (contact_lists self).
             ls \<noteq> [] \<and> set ls \<subseteq> range (\<lambda>(s1, s2, w). contact_line s1 s2 w)"
  shows "\<forall>(k, ls) \<in> set (contact_lists (add_contact_to_list self cid c1 s1 c2 s2 i1 i2)).
             ls \<noteq> [] \<and> set ls \<subseteq> range (\<lambda>(s1, s2, w). contact_line s1 s2 w)"
proof (cases "c1 \<in> set (chromosome_list self) \<and> c2 \<in> set (chromosome_list self)")
  case True
  have "contact_line a b c \<in> range (\<lambda>(s1, s2, w). contact_line s1 s2 w)" for a b c
    by (rule range_eqI[where x = "(a, b, c)"]) simp
  then have "\<forall>(k, ls) \<in> set (dd_append (contact_lists self) key
               (if c1 \<le> c2 then contact_line s1 s2 i2 else contact_line s2 s1 i2)).
             ls \<noteq> [] \<and> set ls \<subseteq> range (\<lambda>(s1, s2, w). contact_line s1 s2 w)" for key
    by (intro dd_append_all[OF assms]) auto
  with True show ?thesis by (simp add: add_contact_valid)
next
  case False
  with assms show ?thesis by (simp add: add_contact_invalid)
qed

lemma contact_file_inject: "contact_file out k = contact_file out k' \<longleftrightarrow> k = k'"
  by (simp add: contact_file_def)

lemma meta_not_contact_file: "(out, ''meta.json'') \<noteq> contact_file out' k"
proof
  assume "(out, ''meta.json'') = contact_file out' k"
  then have "''meta.json'' = k @ ''.txt''" by (simp add: contact_file_def)
  then have "last ''meta.json'' = last (k @ ''.txt'')" by simp
  then show False by simp
qed

lemma write_loop_other:
  "p \<notin> contact_file out ` fst ` set d \<Longrightarrow>
   files (foldl (\<lambda>w (contact_key, contacts).
                   w\<lparr>files := (files w)(contact_file out contact_key \<mapsto> Text (join sep contacts))\<rparr>) w d) p
     = files w p"
  by (induction d arbitrary: w) (auto simp: image_iff)

lemma write_loop_tables:
  "tables (foldl (\<lambda>w (contact_key, contacts).
                   w\<lparr>files := (files w)(contact_file out contact_key \<mapsto> Text (join sep contacts))\<rparr>) w d)
     = tables w"
  "dirs (foldl (\<lambda>w (contact_key, contacts).
                   w\<lparr>files := (files w)(contact_file out contact_key \<mapsto> Text (join sep contacts))\<rparr>) w d)
     = dirs w"
  by (induction d arbitrary: w) (auto split: prod.splits)

lemma write_loop_key:
  "distinct (map fst d) \<Longrightarrow> (k, ls) \<in> set d \<Longrightarrow>
   files (foldl (\<lambda>w (contact_key, contacts).
                   w\<lparr>files := (files w)(contact_file out contact_key \<mapsto> Text (join sep contacts))\<rparr>) w d)
     (contact_file out k) = Some (Text (join sep ls))"
    (is "_ \<Longrightarrow> _ \<Longrightarrow> files (foldl ?F w d) _ = _")
proof (induction d arbitrary: w)
  case Nil
  then show ?case by simp
next
  case (Cons e d)
  obtain k' ls' where e: "e = (k', ls')" by (cases e)
  have unfold: "foldl ?F w (e # d) = foldl ?F (?F w e) d" by (simp only: foldl_Cons)
  show ?case
  proof (cases "(k, ls) = e")
    case True
    then have "contact_file out k \<notin> contact_file out ` fst ` set d"
      using Cons.prems(1) e by (auto simp: contact_file_inject image_iff)
    then have "files (foldl ?F (?F w e) d) (contact_file out k) = files (?F w e) (contact_file out k)"
      by (rule write_loop_other)
    also have "\<dots> = Some (Text (join sep ls))"
      using True by auto
    finally show ?thesis by (simp only: unfold)
  next
    case False
    with Cons.prems have "(k, ls) \<in> set d" "distinct (map fst d)" by auto
    from Cons.IH[OF this(2,1)] show ?thesis by (simp only: unfold)
  qed
qed

lemma files_write_contact_files_other:
  "p \<notin> contact_file out ` fst ` set (contact_lists self) \<Longrightarrow>
   files (write_contact_files self out w) p = files w p"
  unfolding write_contact_files_def
  by (subst write_loop_other) (simp_all add: makedirs_def)

lemma files_write_contact_files_key:
  "distinct (map fst (contact_lists self)) \<Longrightarrow> (k, ls) \<in> set (contact_lists self) \<Longrightarrow>
   files (write_contact_files self out w) (contact_file out k) = Some (Text (join [CHR 0x0A] ls))"
  unfolding write_contact_files_def by (rule write_loop_key)

lemma tables_write_contact_files:
  "tables (write_contact_files self out w) = tables w"
  unfolding write_contact_files_def by (simp add: write_loop_tables makedirs_def)

lemma generate_hsv_success:
  assumes "generate_hsv iter self out w = (Inr self', w')"
  shows "\<exists>lines rows. cluster_file self = Some lines \<and> line_loop iter (self, []) lines = Inr (self', rows)
          \<and> w' = commit (db_file self out) rows
                   (write_contact_files self' out
                      (connect_create (db_file self out) (save_meta self out (makedirs out w))))"
  using assms unfolding generate_hsv_def
  by (auto simp: Let_def split: option.splits sum.splits prod.splits)

lemma main_success:
  assumes "main iter cf gs out mx mn so w = (Inr self', w')"
  shows "\<exists>self0 j. gs = Parsed j \<and> init cf gs mx mn so = Inr self0 \<and> generate_hsv iter self0 out w = (Inr self', w')
          \<and> contact_lists self0 = [] \<and> cluster_file self0 = cf \<and> max_cluster_size self0 = mx
          \<and> min_cluster_size self0 = mn \<and> start_only self0 = so \<and> genomic_sizes self0 = j"
  using assms unfolding main_def init_def
  by (auto split: sum.splits size_file.splits)

lemma run_store_invariants:
  assumes "main iter cf gs out mx mn so w = (Inr self', w')"
  shows "distinct (map fst (contact_lists self'))"
    and "fst ` set (contact_lists self') \<subseteq> valid_keys (chromosome_list self')"
    and "\<forall>(k, ls) \<in> set (contact_lists self').
           ls \<noteq> [] \<and> set ls \<subseteq> range (\<lambda>(s1, s2, w). contact_line s1 s2 w)"
proof -
  from main_success[OF assms] obtain self0 where
    g: "generate_hsv iter self0 out w = (Inr self', w')" and e: "contact_lists self0 = []"
    by blast
  from generate_hsv_success[OF g] obtain lines rows where
    l: "line_loop iter (self0, []) lines = Inr (self', rows)" by blast
  show "distinct (map fst (contact_lists self'))"
    by (rule line_loop_preserves[where P = "\<lambda>s. distinct (map fst (contact_lists s))", OF _ _ l])
       (simp_all add: add_contact_distinct e)
  have "chromosome_list self' = chromosome_list self0
        \<and> fst ` set (contact_lists self') \<subseteq> valid_keys (chromosome_list self0)"
    by (rule line_loop_preserves[where
          P = "\<lambda>s. chromosome_list s = chromosome_list self0
                   \<and> fst ` set (contact_lists s) \<subseteq> valid_keys (chromosome_list self0)", OF _ _ l])
       (simp_all add: add_contact_keys_valid e)
  then show "fst ` set (contact_lists self') \<subseteq> valid_keys (chromosome_list self')" by simp
  show "\<forall>(k, ls) \<in> set (contact_lists self').
           ls \<noteq> [] \<and> set ls \<subseteq> range (\<lambda>(s1, s2, w). contact_line s1 s2 w)"
    by (rule line_loop_preserves[where
          P = "\<lambda>s. \<forall>(k, ls) \<in> set (contact_lists s).
                 ls \<noteq> [] \<and> set ls \<subseteq> range (\<lambda>(s1, s2, w). contact_line s1 s2 w)", OF _ _ l])
       (simp_all add: add_contact_lines e)
qed

lemma run_files:
  assumes "main iter cf gs out mx mn so w = (Inr self', w')"
  shows "files w' = files (write_contact_files self' out (save_meta self' out w))"
    and "genomic_sizes self' = (case gs of Parsed j \<Rightarrow> j | _ \<Rightarrow> JNull)"
proof -
  from main_success[OF assms] obtain self0 j where
    g: "generate_hsv iter self0 out w = (Inr self', w')" and gs: "gs = Parsed j" "genomic_sizes self0 = j"
    by blast
  from generate_hsv_success[OF g] obtain lines rows where
    l: "line_loop iter (self0, []) lines = Inr (self', rows)"
    and w': "w' = commit (db_file self0 out) rows
                   (write_contact_files self' out
                      (connect_create (db_file self0 out) (save_meta self0 out (makedirs out w))))"
    by blast
  have gsz: "genomic_sizes self' = genomic_sizes self0"
    by (rule line_loop_preserves[where P = "\<lambda>s. genomic_sizes s = genomic_sizes self0", OF _ _ l])
       (simp_all add: add_contact_fields)
  then show "genomic_sizes self' = (case gs of Parsed j \<Rightarrow> j | _ \<Rightarrow> JNull)"
    using gs by simp
  show "files w' = files (write_contact_files self' out (save_meta self' out w))"
  proof
    fix p
    show "files w' p = files (write_contact_files self' out (save_meta self' out w)) p"
    proof (cases "p \<in> contact_file out ` fst ` set (contact_lists self')")
      case False
      then show ?thesis
        by (simp add: w' commit_def files_write_contact_files_other connect_create_def
            save_meta_def makedirs_def gsz)
    next
      case True
      then obtain k ls where k: "(k, ls) \<in> set (contact_lists self')" "p = contact_file out k"
        by auto
      have d: "distinct (map fst (contact_lists self'))"
        by (rule run_store_invariants(1)[OF assms])
      show ?thesis
        by (simp add: w' commit_def k(2) files_write_contact_files_key[OF d k(1)])
    qed
  qed
qed


lemma generate_hsv_failure:
  assumes "generate_hsv iter self out w = (Inl e, w')"
  shows "w' = connect_create (db_file self out) (save_meta self out (makedirs out w))"
  using assms unfolding generate_hsv_def
  by (auto simp: Let_def split: option.splits sum.splits prod.splits)

lemma main_failure:
  assumes "main iter cf gs out mx mn so w = (Inl e, w')"
  shows "w' = w \<or> (\<exists>self0. w' = connect_create (db_file self0 out) (save_meta self0 out (makedirs out w)))"
  using assms unfolding main_def
  by (auto split: sum.splits dest: generate_hsv_failure)

lemma run_changed_files:
  assumes "main iter cf gs out mx mn so w = (r, w')"
  shows "{p. files w' p \<noteq> files w p}
           \<subseteq> insert (out, ''meta.json'')
                (contact_file out ` (case r of Inl e \<Rightarrow> {} | Inr self' \<Rightarrow> fst ` set (contact_lists self')))"
proof (cases r)
  case (Inl e)
  from main_failure[OF assms[unfolded Inl]] show ?thesis
    by (auto simp: Inl connect_create_def save_meta_def makedirs_def split: if_splits)
next
  case (Inr self')
  have "files w' p = files w p"
    if "p \<noteq> (out, ''meta.json'')" "p \<notin> contact_file out ` fst ` set (contact_lists self')" for p
    using that run_files(1)[OF assms[unfolded Inr]]
    by (simp add: files_write_contact_files_other save_meta_def)
  then show ?thesis by (auto simp: Inr)
qed

text \<open>
  C6. A contact whose first or second chromosome is not in the registry is dropped: the call
  returns the object as it was, and there is no error to return. Hence, after a run that
  completes, the keys of the contact store are built from two names of the registry, and the
  only files written or changed are \<^verbatim>\<open>meta.json\<close> and files named by such keys; a run that
  fails writes or changes no file but \<^verbatim>\<open>meta.json\<close>.
\<close>

theorem unrecognized_chromosome_excluded:
  "(chrom1 \<notin> set (chromosome_list self) \<or> chrom2 \<notin> set (chromosome_list self)
      \<longrightarrow> add_contact_to_list self cluster_id chrom1 start1 chrom2 start2 inc1 inc2 = self)
   \<and> (main iter cf gs out mx mn so w = (Inr self', w')
      \<longrightarrow> fst ` set (contact_lists self') \<subseteq> valid_keys (chromosome_list self')
        \<and> {p. files w' p \<noteq> files w p}
            \<subseteq> insert (out, ''meta.json'') (contact_file out ` valid_keys (chromosome_list self')))
   \<and> (main iter cf gs out mx mn so w = (Inl e, w')
      \<longrightarrow> {p. files w' p \<noteq> files w p} \<subseteq> {(out, ''meta.json'')})"
proof (intro conjI impI)
  assume "chrom1 \<notin> set (chromosome_list self) \<or> chrom2 \<notin> set (chromosome_list self)"
  then show "add_contact_to_list self cluster_id chrom1 start1 chrom2 start2 inc1 inc2 = self"
    by (rule add_contact_invalid)
next
  assume run: "main iter cf gs out mx mn so w = (Inr self', w')"
  show keys: "fst ` set (contact_lists self') \<subseteq> valid_keys (chromosome_list self')"
    by (rule run_store_invariants(2)[OF run])
  from run_changed_files[OF run] keys
  show "{p. files w' p \<noteq> files w p}
          \<subseteq> insert (out, ''meta.json'') (contact_file out ` valid_keys (chromosome_list self'))"
    by auto
next
  assume "main iter cf gs out mx mn so w = (Inl e, w')"
  from run_changed_files[OF this]
  show "{p. files w' p \<noteq> files w p} \<subseteq> {(out, ''meta.json'')}"
    by simp
qed

theorem unrecognized_chromosome_excluded_witness:
  "add_contact_to_list example_visu ''c1'' ''chrX'' 10 ''chr1'' 30 2 2 = example_visu
   \<and> fst (main slot_order (Some [example_line]) (Parsed example_registry) ''out'' 10 2 False empty_world)
       = Inr example_result
   \<and> fst ` set (contact_lists example_result) \<subseteq> valid_keys (chromosome_list example_result)
   \<and> fst (main slot_order None (Parsed example_registry) ''out'' 10 2 False empty_world) = Inl FileNotFoundError
   \<and> {p. files (snd (main slot_order None (Parsed example_registry) ''out'' 10 2 False empty_world)) p
            \<noteq> files empty_world p} \<subseteq> {(''out'', ''meta.json'')}"
proof -
  let ?R = "main slot_order (Some [example_line]) (Parsed example_registry) ''out'' 10 2 False empty_world"
  let ?F = "main slot_order None (Parsed example_registry) ''out'' 10 2 False empty_world"
  have bad: "''chrX'' \<notin> set (chromosome_list example_visu) \<or> ''chr1'' \<notin> set (chromosome_list example_visu)"
    by (simp add: example_visu_def)
  have r: "fst ?R = Inr example_result"
    by code_simp
  then have run: "?R = (Inr example_result, snd ?R)"
    by (simp add: prod_eq_iff)
  have f: "fst ?F = Inl FileNotFoundError"
    by code_simp
  then have fail: "?F = (Inl FileNotFoundError, snd ?F)"
    by (simp add: prod_eq_iff)
  from unrecognized_chromosome_excluded[where ?chrom1.0 = "''chrX''" and self = example_visu
      and ?chrom2.0 = "''chr1''" and cluster_id = "''c1''" and ?start1.0 = 10 and ?start2.0 = 30
      and ?inc1.0 = 2 and ?inc2.0 = 2 and cf = "Some [example_line]"
      and gs = "Parsed example_registry" and out = "''out''" and mx = 10 and mn = 2 and so = False
      and w = empty_world and self' = example_result and w' = "snd ?R"] bad run
  have 1: "add_contact_to_list example_visu ''c1'' ''chrX'' 10 ''chr1'' 30 2 2 = example_visu"
    and 2: "fst ` set (contact_lists example_result) \<subseteq> valid_keys (chromosome_list example_result)"
    by blast+
  from unrecognized_chromosome_excluded[where cf = None
      and gs = "Parsed example_registry" and out = "''out''" and mx = 10 and mn = 2 and so = False
      and w = empty_world and e = FileNotFoundError and w' = "snd ?F"] fail
  have 3: "{p. files (snd ?F) p \<noteq> files empty_world p} \<subseteq> {(''out'', ''meta.json'')}"
    by blast
  from 1 2 3 r f show ?thesis by simp
qed

text \<open>
  C10. After a run that completes, every key of the contact store has at least one line, each
  a line \<open>start1,start2,weight\<close>; its file holds these lines joined by line feeds and is not
  empty; and apart from \<^verbatim>\<open>meta.json\<close> no file is written but those of the keys of the store.
\<close>

theorem written_contact_files_nonempty:
  assumes "main iter cf gs out mx mn so w = (Inr self', w')"
    and "(contact_key, contacts) \<in> set (contact_lists self')"
  shows "contacts \<noteq> []
       \<and> set contacts \<subseteq> range (\<lambda>(start1, start2, weight). contact_line start1 start2 weight)
       \<and> files w' (contact_file out contact_key) = Some (Text (join [CHR 0x0A] contacts))
       \<and> join [CHR 0x0A] contacts \<noteq> []
       \<and> {p. files w' p \<noteq> files w p}
           \<subseteq> insert (out, ''meta.json'') (contact_file out ` fst ` set (contact_lists self'))"
proof -
  from run_store_invariants(3)[OF assms(1)] assms(2)
  have ne: "contacts \<noteq> []"
    and ls: "set contacts \<subseteq> range (\<lambda>(start1, start2, weight). contact_line start1 start2 weight)"
    by auto
  from ne obtain l rest where c: "contacts = l # rest" by (cases contacts) auto
  with ls have "l \<noteq> []" by (auto simp: contact_line_nonempty)
  then have j: "join [CHR 0x0A] contacts \<noteq> []"
    unfolding c by (cases rest) auto
  have f: "files w' (contact_file out contact_key) = Some (Text (join [CHR 0x0A] contacts))"
    using run_files(1)[OF assms(1)]
      files_write_contact_files_key[OF run_store_invariants(1)[OF assms(1)] assms(2)]
    by simp
  from run_changed_files[OF assms(1)] ne ls f j show ?thesis by simp
qed

theorem written_contact_files_nonempty_witness:
  "fst (main slot_order (Some [example_line]) (Parsed example_registry) ''out'' 10 2 False empty_world)
       = Inr example_result
   \<and> (''chr1-chr2'', [''10,5,3'', ''30,5,3'']) \<in> set (contact_lists example_result)
   \<and> files (snd (main slot_order (Some [example_line]) (Parsed example_registry) ''out'' 10 2 False empty_world))
       (''out'', ''chr1-chr2.txt'') = Some (Text (''10,5,3'' @ [CHR 0x0A] @ ''30,5,3''))"
proof -
  let ?R = "main slot_order (Some [example_line]) (Parsed example_registry) ''out'' 10 2 False empty_world"
  have r: "fst ?R = Inr example_result"
    by code_simp
  then have run: "?R = (Inr example_result, snd ?R)"
    by (simp add: prod_eq_iff)
  have m: "(''chr1-chr2'', [''10,5,3'', ''30,5,3'']) \<in> set (contact_lists example_result)"
    by (simp add: example_result_def)
  from written_contact_files_nonempty[OF run m] r m show ?thesis
    by (simp add: contact_file_def)
qed

text \<open>
  C4. A cluster with fewer reads than \<^verbatim>\<open>min_cluster_size\<close> or more than
  \<^verbatim>\<open>max_cluster_size\<close> is passed over: the line is processed without error and leaves the
  object, hence the contact store, as it was (and inserts no row).
\<close>

theorem cluster_outside_bounds_no_contacts:
  assumes "py_split line = cluster_id # reads"
    and "int (length reads) < min_cluster_size self \<or> max_cluster_size self < int (length reads)"
  shows "process_line iter (self, rows) line = Inr (self, rows)"
  using assms by (auto simp: process_line_def Let_def)

theorem cluster_outside_bounds_no_contacts_witness:
  "py_split ''c1 readA_chr1:10-20'' = ''c1'' # [''readA_chr1:10-20'']
   \<and> int (length [''readA_chr1:10-20'']) < min_cluster_size example_visu
   \<and> process_line slot_order (example_visu, []) ''c1 readA_chr1:10-20'' = Inr (example_visu, [])"
proof -
  have 1: "py_split ''c1 readA_chr1:10-20'' = ''c1'' # [''readA_chr1:10-20'']"
    by code_simp
  have 2: "int (length [''readA_chr1:10-20'']) < min_cluster_size example_visu"
    by (simp add: example_visu_def)
  from cluster_outside_bounds_no_contacts[OF 1 disjI1, OF 2] 1 2 show ?thesis
    by simp
qed

text \<open>
  C5, as stated, fails when the two chromosomes are the same: the positions are then kept in
  the order given, so the two calls append different lines.
\<close>

theorem canonical_order_counterexample:
  "''chr1'' \<in> set (chromosome_list example_visu)
   \<and> contact_lists (add_contact_to_list example_visu ''c1'' ''chr1'' 10 ''chr1'' 30 2 2)
       = [(''chr1-chr1'', [''10,30,2''])]
   \<and> contact_lists (add_contact_to_list example_visu ''c1'' ''chr1'' 30 ''chr1'' 10 2 2)
       = [(''chr1-chr1'', [''30,10,2''])]"
  by code_simp

text \<open>
  C5, amended. For chromosomes \<open>A\<close> and \<open>B\<close> of the registry, a contact is appended under the
  key of the smaller name followed by the larger one, with the positions in the order of the
  names; and when \<open>A\<close> and \<open>B\<close> are different, adding (A, s1, B, s2) and adding (B, s2, A, s1)
  with the same weight give the same object, that is the same line under the same key.
\<close>

theorem canonical_order_symmetric:
  assumes "A \<in> set (chromosome_list self)" and "B \<in> set (chromosome_list self)"
  shows "contact_lists (add_contact_to_list self cluster_id A s1 B s2 inc1 weight)
           = dd_append (contact_lists self) (pair_key (min A B) (max A B))
               (if A \<le> B then contact_line s1 s2 weight else contact_line s2 s1 weight)
       \<and> min A B \<le> max A B
       \<and> (A \<noteq> B \<longrightarrow>
            add_contact_to_list self cluster_id A s1 B s2 inc1 weight
              = add_contact_to_list self cluster_id' B s2 A s1 inc1' weight)"
  using assms by (auto simp: add_contact_to_list_def min_def max_def)

theorem canonical_order_symmetric_witness:
  "''chr2'' \<in> set (chromosome_list example_visu) \<and> ''chr1'' \<in> set (chromosome_list example_visu)
   \<and> ''chr2'' \<noteq> ''chr1''
   \<and> add_contact_to_list example_visu ''c1'' ''chr2'' 5 ''chr1'' 10 3 3
       = add_contact_to_list example_visu ''c1'' ''chr1'' 10 ''chr2'' 5 3 3
   \<and> contact_lists (add_contact_to_list example_visu ''c1'' ''chr2'' 5 ''chr1'' 10 3 3)
       = [(''chr1-chr2'', [''10,5,3''])]"
proof -
  have a: "''chr2'' \<in> set (chromosome_list example_visu)"
    and b: "''chr1'' \<in> set (chromosome_list example_visu)"
    by (simp_all add: example_visu_def)
  have c: "contact_lists (add_contact_to_list example_visu ''c1'' ''chr2'' 5 ''chr1'' 10 3 3)
       = [(''chr1-chr2'', [''10,5,3''])]"
    by code_simp
  from canonical_order_symmetric[OF a b, of "''c1''" 5 10 3 3 "''c1''" 3] a b c
  show ?thesis by simp
qed

subsection \<open>Splitting and malformed tokens\<close>

lemma split_on_nonempty: "split_on sep s \<noteq> []"
  by (induction s) (auto split: list.splits)

lemma split_on_no_sep: "sep \<notin> set s \<Longrightarrow> split_on sep s = [s]"
  by (induction s) auto

lemma split_on_two:
  "split_on sep s = [a, b] \<Longrightarrow>
     a = takeWhile (\<lambda>c. c \<noteq> sep) s \<and> b = drop 1 (dropWhile (\<lambda>c. c \<noteq> sep) s)"
proof (induction s arbitrary: a)
  case Nil
  then show ?case by simp
next
  case (Cons c s)
  show ?case
  proof (cases "c = sep")
    case True
    with Cons.prems have "split_on sep s = [b]" "a = []" by auto
    moreover from this(1) have "sep \<notin> set s \<Longrightarrow> b = s" by (simp add: split_on_no_sep)
    moreover have "sep \<notin> set s"
    proof
      assume "sep \<in> set s"
      then obtain u v where "s = u @ sep # v" by (auto simp: in_set_conv_decomp)
      then have "length (split_on sep s) \<ge> 2"
      proof (induction u arbitrary: s)
        case Nil
        then show ?case using split_on_nonempty[of sep v] by (cases "split_on sep v") auto
      next
        case (Cons x u)
        then have "length (split_on sep (u @ sep # v)) \<ge> 2" by simp
        with Cons.prems show ?case by (auto split: list.splits)
      qed
      with \<open>split_on sep s = [b]\<close> show False by simp
    qed
    ultimately show ?thesis using True by simp
  next
    case False
    with Cons.prems obtain a' where "split_on sep s = [a', b]" "a = c # a'"
      by (auto split: list.splits)
    with Cons.IH[OF this(1)] False show ?thesis by simp
  qed
qed

lemma unpack2_Inr: "unpack2 xs = Inr (a, b) \<longleftrightarrow> xs = [a, b]"
  by (auto simp: unpack2_def split: list.splits)

lemma unpack2_Inl: "unpack2 xs = Inl e \<Longrightarrow> e = ValueError"
  by (auto simp: unpack2_def split: list.splits)

lemma read_step_error: "read_step so cid st read = Inl e \<Longrightarrow> e = ValueError"
  unfolding read_step_def
  by (auto split: prod.splits if_splits sum.splits option.splits dest: unpack2_Inl)

lemma read_step_malformed:
  assumes "malformed so read"
  shows "read_step so cid st read = Inl ValueError"
proof -
  have "read_step so cid st read \<noteq> Inr st'" for st'
  proof
    assume ok: "read_step so cid st read = Inr st'"
    obtain bins rows where st: "st = (bins, rows)" by (cases st)
    show False
    proof (cases so)
      case True
      from ok obtain chrom start x where
        u: "split1 CHR '':'' read = [chrom, start]" and i: "py_int start = Some x"
        unfolding read_step_def st using True
        by (auto split: sum.splits option.splits simp: unpack2_Inr)
      from u have c: "CHR '':'' \<in> set read"
        and "start = drop 1 (dropWhile (\<lambda>c. c \<noteq> CHR '':'') read)"
        by (auto simp: split1_def split: if_splits)
      with i assms True show False by (simp add: malformed_def)
    next
      case False
      let ?coord = "rev (takeWhile (\<lambda>c. c \<noteq> CHR ''_'') (rev read))"
      from ok obtain nm coord chrom position start end' x where
        u1: "rsplit1 CHR ''_'' read = [nm, coord]"
        and u2: "split_on CHR '':'' coord = [chrom, position]"
        and u3: "split_on CHR ''-'' position = [start, end']"
        and i: "py_int start = Some x"
        unfolding read_step_def st using False
        by (auto split: sum.splits option.splits simp: unpack2_Inr)
      from u1 have us: "CHR ''_'' \<in> set read" and coord: "coord = ?coord"
        by (auto simp: rsplit1_def split: if_splits)
      from u2 have colon: "CHR '':'' \<in> set coord"
        using split_on_no_sep[of "CHR '':''" coord] by auto
      from split_on_two[OF u2] have position: "position = drop 1 (dropWhile (\<lambda>c. c \<noteq> CHR '':'') coord)"
        by simp
      from u3 have "CHR ''-'' \<in> set position"
        using split_on_no_sep[of "CHR ''-''" position] by auto
      then have hyphen: "CHR ''-'' \<in> set coord"
        unfolding position by (auto dest!: in_set_dropD set_dropWhileD)
      from split_on_two[OF u3] have "start = takeWhile (\<lambda>c. c \<noteq> CHR ''-'') position" by simp
      with i position have "py_int (takeWhile (\<lambda>c. c \<noteq> CHR ''-'')
                      (drop 1 (dropWhile (\<lambda>c. c \<noteq> CHR '':'') coord))) \<noteq> None" by simp
      with assms False us colon hyphen coord show False
        by (simp add: malformed_def Let_def)
    qed
  qed
  then show ?thesis
    by (cases "read_step so cid st read") (auto dest: read_step_error)
qed

lemma read_loop_malformed:
  "read \<in> set reads \<Longrightarrow> malformed so read \<Longrightarrow> read_loop so cid st reads = Inl ValueError"
proof (induction reads arbitrary: st)
  case Nil
  then show ?case by simp
next
  case (Cons r reads)
  show ?case
  proof (cases "read_step so cid st r")
    case (Inl e)
    then show ?thesis by (auto dest: read_step_error)
  next
    case (Inr st')
    with Cons.prems read_step_malformed[of so r cid st] have "read \<in> set reads" by auto
    from Cons.IH[OF this Cons.prems(2)] Inr show ?thesis by simp
  qed
qed

lemma process_line_malformed:
  assumes "py_split line = cid # reads"
    and "min_cluster_size self \<le> int (length reads)" and "int (length reads) \<le> max_cluster_size self"
    and "read \<in> set reads" and "malformed (start_only self) read"
  shows "process_line iter (self, rows) line = Inl ValueError"
  using assms read_loop_malformed[OF assms(4,5), of cid "([], rows)"]
  by (simp add: process_line_def Let_def)

lemma process_line_fields:
  assumes "process_line iter (self, rows) line = Inr (self', rows')"
  shows "min_cluster_size self' = min_cluster_size self \<and> max_cluster_size self' = max_cluster_size self
         \<and> start_only self' = start_only self \<and> chromosome_list self' = chromosome_list self"
  by (rule process_line_preserves[where
        P = "\<lambda>s. min_cluster_size s = min_cluster_size self \<and> max_cluster_size s = max_cluster_size self
         \<and> start_only s = start_only self \<and> chromosome_list s = chromosome_list self", OF _ _ assms])
     (simp_all add: add_contact_fields)

lemma line_loop_malformed:
  assumes "line \<in> set lines" and "py_split line = cid # reads"
    and "min_cluster_size self \<le> int (length reads)" and "int (length reads) \<le> max_cluster_size self"
    and "read \<in> set reads" and "malformed (start_only self) read"
  shows "\<exists>e. line_loop iter (self, rows) lines = Inl e"
  using assms(1,3,4,6)
proof (induction lines arbitrary: self rows)
  case Nil
  then show ?case by simp
next
  case (Cons l lines)
  show ?case
  proof (cases "process_line iter (self, rows) l")
    case (Inl e)
    then show ?thesis by simp
  next
    case (Inr st')
    obtain self1 rows1 where st': "st' = (self1, rows1)" by (cases st')
    have "l \<noteq> line"
      using process_line_malformed[OF assms(2) Cons.prems(2,3) assms(5) Cons.prems(4), of iter rows] Inr
      by auto
    with Cons.prems have in': "line \<in> set lines" by auto
    from process_line_fields[OF Inr[unfolded st']] Cons.prems
    have "min_cluster_size self1 \<le> int (length reads)" "int (length reads) \<le> max_cluster_size self1"
      "malformed (start_only self1) read" by simp_all
    from Cons.IH[OF in' this] Inr st' show ?thesis by simp
  qed
qed

lemma process_line_error: "process_line iter st line = Inl e \<Longrightarrow> e = IndexError \<or> e = ValueError"
proof -
  assume a: "process_line iter st line = Inl e"
  obtain self rows where st: "st = (self, rows)" by (cases st)
  have rl: "read_loop so cid st' reads = Inl e' \<Longrightarrow> e' = ValueError" for so cid st' reads e'
    by (induction reads arbitrary: st') (auto split: sum.splits dest: read_step_error)
  from a show ?thesis
    unfolding process_line_def st
    by (auto simp: Let_def split: list.splits if_splits sum.splits dest: rl)
qed

lemma line_loop_error: "line_loop iter st lines = Inl e \<Longrightarrow> e = IndexError \<or> e = ValueError"
  by (induction lines arbitrary: st) (auto split: sum.splits dest: process_line_error)

text \<open>
  C9. When a read of a cluster within the size bounds is malformed, the pass over the cluster
  file raises (a \<^verbatim>\<open>ValueError\<close> of the parse, or the \<^verbatim>\<open>IndexError\<close> of an empty line
  before it), so \<^verbatim>\<open>generate_hsv\<close> never reaches \<^verbatim>\<open>write_contact_files\<close>: it leaves the
  directory, \<^verbatim>\<open>meta.json\<close> and the database with its table, no contact file is written or
  changed, and no row is committed.
\<close>

theorem malformed_token_aborts:
  assumes "cluster_file self = Some lines" and "line \<in> set lines"
    and "py_split line = cluster_id # reads"
    and "min_cluster_size self \<le> int (length reads)"
    and "int (length reads) \<le> max_cluster_size self"
    and "read \<in> set reads" and "malformed (start_only self) read"
  shows "(fst (generate_hsv iter self output w) = Inl ValueError
            \<or> fst (generate_hsv iter self output w) = Inl IndexError)
       \<and> snd (generate_hsv iter self output w)
           = connect_create (db_file self output) (save_meta self output (makedirs output w))
       \<and> files (snd (generate_hsv iter self output w)) (contact_file output contact_key)
           = files w (contact_file output contact_key)
       \<and> tables (snd (generate_hsv iter self output w)) (db_file self output)
           = Some (case tables w (db_file self output) of None \<Rightarrow> [] | Some rows \<Rightarrow> rows)"
proof -
  from line_loop_malformed[OF assms(2-7)] obtain e where e: "line_loop iter (self, []) lines = Inl e"
    by blast
  from line_loop_error[OF e] have "e = IndexError \<or> e = ValueError" .
  moreover have "generate_hsv iter self output w
      = (Inl e, connect_create (db_file self output) (save_meta self output (makedirs output w)))"
    by (simp add: generate_hsv_def Let_def assms(1) e)
  moreover have "(output, ''meta.json'') \<noteq> contact_file output contact_key"
    by (rule meta_not_contact_file)
  ultimately show ?thesis
    by (auto simp: connect_create_def save_meta_def makedirs_def)
qed

theorem malformed_token_aborts_witness:
  "malformed False ''bad_chr1:x-5''
   \<and> fst (generate_hsv slot_order (example_visu\<lparr>cluster_file := Some [example_line, ''c2 bad_chr1:x-5 readB_chr1:30-40'']\<rparr>)
            ''out'' empty_world) = Inl ValueError
   \<and> files (snd (generate_hsv slot_order
              (example_visu\<lparr>cluster_file := Some [example_line, ''c2 bad_chr1:x-5 readB_chr1:30-40'']\<rparr>)
              ''out'' empty_world)) (''out'', ''chr1-chr1.txt'') = None"
proof -
  let ?line = "''c2 bad_chr1:x-5 readB_chr1:30-40''"
  let ?self = "example_visu\<lparr>cluster_file := Some [example_line, ?line]\<rparr>"
  have 1: "cluster_file ?self = Some [example_line, ?line]" by simp
  have 2: "?line \<in> set [example_line, ?line]" by simp
  have 3: "py_split ?line = ''c2'' # [''bad_chr1:x-5'', ''readB_chr1:30-40'']" by code_simp
  have 4: "min_cluster_size ?self \<le> int (length [''bad_chr1:x-5'', ''readB_chr1:30-40''])"
    and 5: "int (length [''bad_chr1:x-5'', ''readB_chr1:30-40'']) \<le> max_cluster_size ?self"
    by (simp_all add: example_visu_def)
  have 6: "''bad_chr1:x-5'' \<in> set [''bad_chr1:x-5'', ''readB_chr1:30-40'']" by simp
  have m: "malformed False ''bad_chr1:x-5''" by code_simp
  then have 7: "malformed (start_only ?self) ''bad_chr1:x-5''" by (simp add: example_visu_def)
  have e: "fst (generate_hsv slot_order ?self ''out'' empty_world) = Inl ValueError" by code_simp
  from malformed_token_aborts[OF 1 2 3 4 5 6 7, of slot_order "''out''" empty_world "''chr1-chr1''"]
  have "files (snd (generate_hsv slot_order ?self ''out'' empty_world)) (contact_file ''out'' ''chr1-chr1'')
          = files empty_world (contact_file ''out'' ''chr1-chr1'')"
    by blast
  with m e show ?thesis by (simp add: contact_file_def empty_world_def)
qed

subsection \<open>Rows and bins of a cluster\<close>

text \<open>
  A read either fails in every state, or extends every state by one chromosome, one start and
  one row that depend on the read alone.
\<close>

lemma read_step_cases:
  "(\<forall>bins rows. read_step so cid (bins, rows) read = Inl ValueError)
   \<or> (\<exists>chrom x row. \<forall>bins rows.
         read_step so cid (bins, rows) read = Inr (bins_add bins chrom x, rows @ [row]))"
proof (cases so)
  case True
  show ?thesis
  proof (cases "unpack2 (split1 CHR '':'' read)")
    case (Inl e)
    with True unpack2_Inl[OF Inl] show ?thesis by (simp add: read_step_def)
  next
    case (Inr p)
    obtain chrom start where p: "p = (chrom, start)" by (cases p)
    show ?thesis
    proof (cases "py_int start")
      case None
      with True Inr p show ?thesis by (simp add: read_step_def)
    next
      case (Some x)
      with True Inr p have
        "\<forall>bins rows. read_step so cid (bins, rows) read
            = Inr (bins_add bins chrom x, rows @ [Row3 chrom start cid])"
        by (simp add: read_step_def)
      then show ?thesis by blast
    qed
  qed
next
  case False
  show ?thesis
  proof (cases "unpack2 (rsplit1 CHR ''_'' read)")
    case (Inl e)
    with False unpack2_Inl[OF Inl] show ?thesis by (simp add: read_step_def)
  next
    case u1: (Inr p1)
    obtain nm coord where p1: "p1 = (nm, coord)" by (cases p1)
    show ?thesis
    proof (cases "unpack2 (split_on CHR '':'' coord)")
      case (Inl e)
      with False u1 p1 unpack2_Inl[OF Inl] show ?thesis by (simp add: read_step_def)
    next
      case u2: (Inr p2)
      obtain chrom position where p2: "p2 = (chrom, position)" by (cases p2)
      show ?thesis
      proof (cases "unpack2 (split_on CHR ''-'' position)")
        case (Inl e)
        with False u1 p1 u2 p2 unpack2_Inl[OF Inl] show ?thesis by (simp add: read_step_def)
      next
        case u3: (Inr p3)
        obtain start end' where p3: "p3 = (start, end')" by (cases p3)
        show ?thesis
        proof (cases "py_int start")
          case None
          with False u1 p1 u2 p2 u3 p3 show ?thesis by (simp add: read_step_def)
        next
          case (Some x)
          with False u1 p1 u2 p2 u3 p3 have
            "\<forall>bins rows. read_step so cid (bins, rows) read
                = Inr (bins_add bins chrom x, rows @ [Row4 chrom start end' cid])"
            by (simp add: read_step_def)
          then show ?thesis by blast
        qed
      qed
    qed
  qed
qed

lemma read_loop_rows:
  "read_loop so cid (bins, rows) reads = Inr (bins', rows')
   \<Longrightarrow> \<exists>new. rows' = rows @ new \<and> length new = length reads"
proof (induction reads arbitrary: bins rows)
  case Nil
  then show ?case by simp
next
  case (Cons r reads)
  from read_step_cases[of so cid r] Cons.prems obtain chrom x row where
    s: "read_step so cid (bins, rows) r = Inr (bins_add bins chrom x, rows @ [row])"
    by auto
  with Cons.prems have "read_loop so cid (bins_add bins chrom x, rows @ [row]) reads = Inr (bins', rows')"
    by simp
  from Cons.IH[OF this] show ?case by auto
qed

lemma process_line_rows:
  assumes "process_line iter (self, rows) line = Inr (self', rows')"
  shows "\<exists>new. rows' = rows @ new
           \<and> length new = eligible_reads (min_cluster_size self) (max_cluster_size self) line"
  using assms unfolding process_line_def eligible_reads_def
  by (auto simp: Let_def split: list.splits if_splits sum.splits dest!: read_loop_rows)

lemma line_loop_rows:
  "line_loop iter (self, rows) lines = Inr (self', rows')
   \<Longrightarrow> \<exists>new. rows' = rows @ new
          \<and> length new
              = sum_list (map (eligible_reads (min_cluster_size self) (max_cluster_size self)) lines)"
proof (induction lines arbitrary: self rows)
  case Nil
  then show ?case by simp
next
  case (Cons l lines)
  then obtain self1 rows1 where 1: "process_line iter (self, rows) l = Inr (self1, rows1)"
    and 2: "line_loop iter (self1, rows1) lines = Inr (self', rows')"
    by (auto split: sum.splits)
  from process_line_rows[OF 1] obtain new1 where
    n1: "rows1 = rows @ new1"
      "length new1 = eligible_reads (min_cluster_size self) (max_cluster_size self) l"
    by blast
  from Cons.IH[OF 2] process_line_fields[OF 1] obtain new2 where
    n2: "rows' = rows1 @ new2"
      "length new2 = sum_list (map (eligible_reads (min_cluster_size self) (max_cluster_size self)) lines)"
    by auto
  from n1 n2 have "rows' = rows @ (new1 @ new2)"
    "length (new1 @ new2)
       = sum_list (map (eligible_reads (min_cluster_size self) (max_cluster_size self)) (l # lines))"
    by simp_all
  then show ?case by blast
qed

text \<open>
  C1, as stated, fails: a cluster outside the size bounds is left before its reads are looked
  at, so none of its reads becomes a row. Here one cluster of one read, with a minimum of 2.
\<close>

theorem relational_rows_counterexample:
  "length (drop 1 (py_split ''c1 readA_chr1:10-20'')) = 1
   \<and> fst (main slot_order (Some [''c1 readA_chr1:10-20'']) (Parsed example_registry) ''out'' 10 2 False empty_world)
       = Inr (example_visu\<lparr>cluster_file := Some [''c1 readA_chr1:10-20'']\<rparr>)
   \<and> tables (snd (main slot_order (Some [''c1 readA_chr1:10-20'']) (Parsed example_registry) ''out'' 10 2 False
                     empty_world)) (''out'', ''cluster_id_reads.db'') = Some []"
  by code_simp

text \<open>
  C1, amended. After a run in full mode that completes, the table holds its earlier rows
  followed by the rows of the run, and the number of these is the total number of reads of
  the clusters whose read count lies within the size bounds.
\<close>

theorem relational_rows_count:
  assumes "main iter (Some lines) gs out mx mn False w = (Inr self', w')"
  shows "\<exists>rows. tables w' (out, ''cluster_id_reads.db'')
                  = Some ((case tables w (out, ''cluster_id_reads.db'') of
                             None \<Rightarrow> [] | Some old \<Rightarrow> old) @ rows)
               \<and> length rows = sum_list (map (eligible_reads mn mx) lines)"
proof -
  from main_success[OF assms] obtain self0 where
    g: "generate_hsv iter self0 out w = (Inr self', w')"
    and f: "cluster_file self0 = Some lines" "max_cluster_size self0 = mx"
      "min_cluster_size self0 = mn" "start_only self0 = False"
    by blast
  from generate_hsv_success[OF g] f(1) obtain rows where
    l: "line_loop iter (self0, []) lines = Inr (self', rows)"
    and w': "w' = commit (db_file self0 out) rows
                   (write_contact_files self' out
                      (connect_create (db_file self0 out) (save_meta self0 out (makedirs out w))))"
    by auto
  from line_loop_rows[OF l] f have n: "length rows = sum_list (map (eligible_reads mn mx) lines)"
    by simp
  have "tables w' (out, ''cluster_id_reads.db'')
          = Some ((case tables w (out, ''cluster_id_reads.db'') of None \<Rightarrow> [] | Some old \<Rightarrow> old) @ rows)"
    by (simp add: w' commit_def tables_write_contact_files connect_create_def save_meta_def
        makedirs_def db_file_def f(4))
  with n show ?thesis by blast
qed

theorem relational_rows_count_witness:
  "fst (main slot_order (Some [example_line, ''c2 readA_chr1:10-20'']) (Parsed example_registry) ''out'' 10 2 False
          empty_world)
     = Inr (example_result\<lparr>cluster_file := Some [example_line, ''c2 readA_chr1:10-20'']\<rparr>)
   \<and> sum_list (map (eligible_reads 2 10) [example_line, ''c2 readA_chr1:10-20'']) = 3
   \<and> (\<exists>rows. tables (snd (main slot_order (Some [example_line, ''c2 readA_chr1:10-20''])
                              (Parsed example_registry) ''out'' 10 2 False empty_world))
                (''out'', ''cluster_id_reads.db'') = Some rows
             \<and> length rows = 3)"
proof -
  let ?lines = "[example_line, ''c2 readA_chr1:10-20'']"
  let ?R = "main slot_order (Some ?lines) (Parsed example_registry) ''out'' 10 2 False empty_world"
  have r: "fst ?R = Inr (example_result\<lparr>cluster_file := Some ?lines\<rparr>)"
    by code_simp
  then have run: "?R = (Inr (example_result\<lparr>cluster_file := Some ?lines\<rparr>), snd ?R)"
    by (simp add: prod_eq_iff)
  have s: "sum_list (map (eligible_reads 2 10) ?lines) = 3"
    by code_simp
  from relational_rows_count[OF run] r s show ?thesis
    by (simp add: empty_world_def)
qed

subsection \<open>Bins are sets\<close>

lemma bins_add_keys:
  "map fst (bins_add bins chrom x)
     = (if chrom \<in> fst ` set bins then map fst bins else map fst bins @ [chrom])"
  by (induction bins chrom x rule: bins_add.induct) (auto simp: image_iff)

lemma bins_add_sets:
  "\<forall>(c, ps) \<in> set bins. distinct ps \<Longrightarrow> \<forall>(c, ps) \<in> set (bins_add bins chrom x). distinct ps"
  by (induction bins chrom x rule: bins_add.induct) (auto simp: set_add_def split: if_splits)

lemma read_loop_bins:
  "read_loop so cid (bins, rows) reads = Inr (bins', rows')
   \<Longrightarrow> distinct (map fst bins) \<Longrightarrow> \<forall>(c, ps) \<in> set bins. distinct ps
   \<Longrightarrow> distinct (map fst bins') \<and> (\<forall>(c, ps) \<in> set bins'. distinct ps)"
proof (induction reads arbitrary: bins rows)
  case Nil
  then show ?case by simp
next
  case (Cons r reads)
  from read_step_cases[of so cid r] Cons.prems(1) obtain chrom x row where
    s: "read_step so cid (bins, rows) r = Inr (bins_add bins chrom x, rows @ [row])"
    by auto
  with Cons.prems(1) have
    l: "read_loop so cid (bins_add bins chrom x, rows @ [row]) reads = Inr (bins', rows')"
    by simp
  have "distinct (map fst (bins_add bins chrom x))"
    using Cons.prems(2) by (simp add: bins_add_keys)
  from Cons.IH[OF l this bins_add_sets[OF Cons.prems(3)]] show ?case .
qed

lemma cluster_bins:
  assumes "read_loop so cid ([], rows) reads = Inr (bins, rows')"
  shows "distinct (map fst bins)" and "(c, ps) \<in> set bins \<Longrightarrow> distinct ps"
  using read_loop_bins[OF assms] by auto

subsection \<open>Pairs\<close>

lemma combinations2_set:
  "(a, b) \<in> set (combinations2 xs) \<Longrightarrow> a \<in> set xs \<and> b \<in> set xs"
  by (induction xs) auto

lemma combinations2_distinct_pairs:
  "distinct xs \<Longrightarrow> (a, b) \<in> set (combinations2 xs) \<Longrightarrow> a \<noteq> b"
  by (induction xs) (auto dest: combinations2_set)

lemma combinations2_length:
  "length (combinations2 xs) = length xs * (length xs - 1) div 2"
proof (induction xs)
  case Nil
  then show ?case by simp
next
  case (Cons x xs)
  have "length xs + length xs * (length xs - 1) div 2 = (length xs + 1) * length xs div 2"
  proof (cases "length xs")
    case 0
    then show ?thesis by simp
  next
    case (Suc n)
    have "Suc n + Suc n * n div 2 = (2 * Suc n + Suc n * n) div 2" by simp
    also have "2 * Suc n + Suc n * n = (Suc n + 1) * Suc n" by simp
    finally show ?thesis using Suc by simp
  qed
  with Cons show ?case by simp
qed

lemma count_list_map_Pair:
  "count_list (map (Pair x) xs) (a, b) = (if a = x then count_list xs b else 0)"
  by (induction xs) auto

lemma count_list_0: "x \<notin> set xs \<Longrightarrow> count_list xs x = 0"
  by (induction xs) auto

lemma count_list_distinct: "distinct xs \<Longrightarrow> x \<in> set xs \<Longrightarrow> count_list xs x = 1"
  by (induction xs) (auto simp: count_list_0)

lemma combinations2_once:
  "distinct xs \<Longrightarrow> a \<in> set xs \<Longrightarrow> b \<in> set xs \<Longrightarrow> a \<noteq> b
   \<Longrightarrow> count_list (combinations2 xs) (a, b) + count_list (combinations2 xs) (b, a) = 1"
proof (induction xs)
  case Nil
  then show ?case by simp
next
  case (Cons x xs)
  have none: "count_list (combinations2 xs) (u, v) = 0" if "u \<notin> set xs \<or> v \<notin> set xs" for u v
    using that by (intro count_list_0) (auto dest: combinations2_set)
  consider "a = x" | "b = x" | "a \<noteq> x" "b \<noteq> x" by blast
  then show ?case
  proof cases
    case 1
    with Cons.prems have "b \<in> set xs" "x \<notin> set xs" "b \<noteq> x" by auto
    with 1 Cons.prems show ?thesis
      by (simp add: count_list_map_Pair count_list_distinct none)
  next
    case 2
    with Cons.prems have "a \<in> set xs" "x \<notin> set xs" "a \<noteq> x" by auto
    with 2 Cons.prems show ?thesis
      by (simp add: count_list_map_Pair count_list_distinct none)
  next
    case 3
    with Cons.prems have "a \<in> set xs" "b \<in> set xs" "distinct xs" by auto
    from Cons.IH[OF this(3,1,2) Cons.prems(4)] 3 show ?thesis
      by (simp add: count_list_map_Pair)
  qed
qed

subsection \<open>Iteration orders\<close>

lemma enumerates_distinct: "enumerates iter \<Longrightarrow> distinct xs \<Longrightarrow> distinct (iter xs)"
  by (simp add: enumerates_def)

lemma enumerates_set: "enumerates iter \<Longrightarrow> distinct xs \<Longrightarrow> set (iter xs) = set xs"
  by (simp add: enumerates_def)

lemma enumerates_length: "enumerates iter \<Longrightarrow> distinct xs \<Longrightarrow> length (iter xs) = length xs"
  using distinct_card[of xs] distinct_card[of "iter xs"]
  by (simp add: enumerates_def)

lemma enumerates_slot_order: "enumerates slot_order"
  by (simp add: enumerates_def slot_order_def)

subsection \<open>Decimal numerals\<close>

lemma digit_val_digit_char: "d < 10 \<Longrightarrow> digit_val (digit_char d) = d"
  by (simp add: digit_val_def digit_char_def)

lemma is_digit_digit_char: "d < 10 \<Longrightarrow> is_digit (digit_char d)"
  by (simp add: is_digit_def digit_char_def)

lemma str_nat_small: "n < 10 \<Longrightarrow> str_nat n = [digit_char n]"
  by (subst str_nat.simps) simp

lemma str_nat_large: "\<not> n < 10 \<Longrightarrow> str_nat n = str_nat (n div 10) @ [digit_char (n mod 10)]"
  by (subst str_nat.simps) simp

lemma str_nat_value: "foldl (\<lambda>a c. 10 * a + digit_val c) 0 (str_nat n) = n"
proof (induction n rule: str_nat.induct)
  case (1 n)
  show ?case
  proof (cases "n < 10")
    case True
    then show ?thesis by (simp add: str_nat_small digit_val_digit_char)
  next
    case False
    have "n mod 10 < 10" by simp
    then have d: "digit_val (digit_char (n mod 10)) = n mod 10" by (rule digit_val_digit_char)
    have e: "str_nat n = str_nat (n div 10) @ [digit_char (n mod 10)]"
      by (rule str_nat_large[OF False])
    have "foldl (\<lambda>a c. 10 * a + digit_val c) 0 (str_nat n)
        = foldl (\<lambda>a c. 10 * a + digit_val c) 0 (str_nat (n div 10) @ [digit_char (n mod 10)])"
      by (rule arg_cong[OF e])
    also have "\<dots> = 10 * foldl (\<lambda>a c. 10 * a + digit_val c) 0 (str_nat (n div 10))
                     + digit_val (digit_char (n mod 10))"
      by simp
    also have "\<dots> = 10 * (n div 10) + n mod 10"
      by (simp only: 1[OF False] d)
    also have "\<dots> = n" by simp
    finally show ?thesis .
  qed
qed

lemma str_nat_inject: "str_nat n = str_nat m \<Longrightarrow> n = m"
  by (metis str_nat_value)

lemma str_nat_digits: "c \<in> set (str_nat n) \<Longrightarrow> is_digit c"
proof (induction n rule: str_nat.induct)
  case (1 n)
  show ?case
  proof (cases "n < 10")
    case True
    with "1.prems" show ?thesis
      by (simp add: str_nat_small is_digit_digit_char)
  next
    case False
    have "n mod 10 < 10" by simp
    then have d: "is_digit (digit_char (n mod 10))" by (rule is_digit_digit_char)
    have e: "set (str_nat n) = insert (digit_char (n mod 10)) (set (str_nat (n div 10)))"
      using arg_cong[OF str_nat_large[OF False], of set] by simp
    from "1.prems" have "c \<in> set (str_nat (n div 10)) \<or> c = digit_char (n mod 10)"
      unfolding e by blast
    with "1.IH"[OF False] d show ?thesis by blast
  qed
qed

lemma str_nat_nonempty: "str_nat n \<noteq> []"
  by (cases "n < 10") (simp_all add: str_nat_small str_nat_large)

lemma str_int_inject: "str_int i = str_int j \<Longrightarrow> i = j"
proof -
  assume a: "str_int i = str_int j"
  have nd: "\<not> is_digit CHR ''-''" by (simp add: is_digit_def)
  have hd: "hd (str_nat n) \<noteq> CHR ''-''" for n
    using str_nat_digits[of "hd (str_nat n)" n] str_nat_nonempty[of n] nd by auto
  have neq: "CHR ''-'' # str_nat n \<noteq> str_nat m" for n m
    using hd[of m] by (cases "str_nat m") auto
  show ?thesis
  proof (cases "i < 0"; cases "j < 0")
    assume "i < 0" "j < 0"
    with a have "nat (- i) = nat (- j)" by (auto simp: str_int_def dest: str_nat_inject)
    with \<open>i < 0\<close> \<open>j < 0\<close> show ?thesis by simp
  next
    assume "i < 0" "\<not> j < 0"
    with a neq show ?thesis by (auto simp: str_int_def)
  next
    assume "\<not> i < 0" "j < 0"
    with a neq[of "nat (- j)" "nat i"] show ?thesis by (auto simp: str_int_def)
  next
    assume "\<not> i < 0" "\<not> j < 0"
    with a have "nat i = nat j" by (auto simp: str_int_def dest: str_nat_inject)
    with \<open>\<not> i < 0\<close> \<open>\<not> j < 0\<close> show ?thesis by simp
  qed
qed

lemma comma_notin_str_int: "CHR '','' \<notin> set (str_int i)"
proof -
  have "\<not> is_digit CHR '',''" by (simp add: is_digit_def)
  then have "CHR '','' \<notin> set (str_nat n)" for n
    using str_nat_digits[of "CHR '',''" n] by auto
  then show ?thesis by (simp add: str_int_def)
qed

lemma append_sep_inject:
  assumes "x @ sep # y = x' @ sep # y'" and "sep \<notin> set x" and "sep \<notin> set x'"
  shows "x = x' \<and> y = y'"
proof -
  have t: "sep \<notin> set u \<Longrightarrow> takeWhile (\<lambda>c. c \<noteq> sep) (u @ sep # v) = u" for u v
    by (induction u) auto
  from t[OF assms(2), of y] t[OF assms(3), of y'] assms(1) have "x = x'" by simp
  with assms(1) show ?thesis by simp
qed

lemma contact_line_inject:
  "contact_line s1 s2 w = contact_line t1 t2 w' \<Longrightarrow> s1 = t1 \<and> s2 = t2 \<and> w = w'"
proof -
  assume a: "contact_line s1 s2 w = contact_line t1 t2 w'"
  then have "str_int s1 @ CHR '','' # (str_int s2 @ CHR '','' # str_int w)
           = str_int t1 @ CHR '','' # (str_int t2 @ CHR '','' # str_int w')"
    by (simp add: contact_line_def)
  from append_sep_inject[OF this comma_notin_str_int comma_notin_str_int]
  have 1: "str_int s1 = str_int t1"
    and "str_int s2 @ CHR '','' # str_int w = str_int t2 @ CHR '','' # str_int w'"
    by simp_all
  from append_sep_inject[OF this(2) comma_notin_str_int comma_notin_str_int] 1
  show ?thesis by (auto dest: str_int_inject)
qed

lemma read_loop_single:
  assumes "read_loop so cid ([], []) [read] = Inr ([(chrom, [x])], rows1)"
  shows "\<exists>row. rows1 = [row] \<and> (\<forall>bins rows. read_step so cid (bins, rows) read
            = Inr (bins_add bins chrom x, rows @ [row]))"
proof -
  from read_step_cases[of so cid read] assms obtain chrom' x' row where
    s: "\<forall>bins rows. read_step so cid (bins, rows) read = Inr (bins_add bins chrom' x', rows @ [row])"
    by auto
  with assms have "bins_add [] chrom' x' = [(chrom, [x])]" "rows1 = [row]"
    by (auto split: sum.splits)
  then have "chrom' = chrom" "x' = x" by (simp_all add: set_add_def)
  with s \<open>rows1 = [row]\<close> show ?thesis by blast
qed

subsection \<open>The lines appended by the contact loops\<close>

lemma lines_of_append_all:
  "lines_of (foldl (\<lambda>d l. dd_append d key l) d ls) k
     = lines_of d k @ (if k = key then ls else [])"
  by (induction ls arbitrary: d) (simp_all add: lines_of_dd_append)

lemma foldl_add_contact:
  assumes "chrom1 \<in> set (chromosome_list self)" and "chrom2 \<in> set (chromosome_list self)"
  shows "foldl (\<lambda>self (start1, start2).
                  add_contact_to_list self cid chrom1 start1 chrom2 start2 n w) self pairs
         = self\<lparr>contact_lists :=
                  foldl (\<lambda>d l. dd_append d (pair_key (min chrom1 chrom2) (max chrom1 chrom2)) l)
                    (contact_lists self)
                    (map (\<lambda>(start1, start2).
                            if chrom1 \<le> chrom2 then contact_line start1 start2 w
                            else contact_line start2 start1 w) pairs)\<rparr>"
  using assms
proof (induction pairs arbitrary: self)
  case Nil
  then show ?case by simp
next
  case (Cons p pairs)
  obtain s1 s2 where p: "p = (s1, s2)" by (cases p)
  let ?self1 = "add_contact_to_list self cid chrom1 s1 chrom2 s2 n w"
  have v: "chrom1 \<in> set (chromosome_list ?self1)" "chrom2 \<in> set (chromosome_list ?self1)"
    using Cons.prems by (simp_all add: add_contact_fields)
  show ?case
    unfolding foldl_Cons p prod.case Cons.IH[OF v]
    by (simp add: add_contact_valid[OF Cons.prems])
qed

lemma foldl_add_contact_invalid:
  assumes "chrom1 \<notin> set (chromosome_list self) \<or> chrom2 \<notin> set (chromosome_list self)"
  shows "foldl (\<lambda>self (start1, start2).
                  add_contact_to_list self cid chrom1 start1 chrom2 start2 n w) self pairs = self"
  by (induction pairs) (auto simp: add_contact_invalid[OF assms])

lemma pair_key_same: "pair_key c c = pair_key c' c' \<Longrightarrow> c = c'"
proof -
  assume a: "pair_key c c = pair_key c' c'"
  then have "length (c @ ''-'' @ c) = length (c' @ ''-'' @ c')"
    unfolding pair_key_def by simp
  then have "length c = length c'" by simp
  with a show ?thesis unfolding pair_key_def by simp
qed

lemma intra_chrom_chromosome_list:
  "chromosome_list (intra_chrom iter cid n self b) = chromosome_list self"
  by (rule intra_chrom_preserves[where P = "\<lambda>s. chromosome_list s = chromosome_list self"])
     (simp_all add: add_contact_fields)

text \<open>What the body of the loop over the bins does to the object, for every bin.\<close>

lemma intra_chrom_eq:
  "intra_chrom iter cid n self (chrom, bin_set)
     = self\<lparr>contact_lists :=
              foldl (\<lambda>d l. dd_append d (pair_key chrom chrom) l) (contact_lists self)
                (if chrom \<in> set (chromosome_list self) \<and> 1 < length bin_set
                 then map (\<lambda>(start1, start2). contact_line start1 start2 (int (length bin_set)))
                        (combinations2 (iter bin_set))
                 else [])\<rparr>"
proof (cases "chrom \<in> set (chromosome_list self)")
  case True
  have "(\<lambda>(start1, start2). if chrom \<le> chrom then contact_line start1 start2 w
                              else contact_line start2 start1 w)
          = (\<lambda>(start1, start2). contact_line start1 start2 w)" for w
    by auto
  then show ?thesis
    using True
    by (simp add: intra_chrom_def Let_def foldl_add_contact[OF True True])
next
  case False
  then show ?thesis
    by (simp add: intra_chrom_def Let_def foldl_add_contact_invalid)
qed

lemma intra_chrom_lines:
  "lines_of (contact_lists (intra_chrom iter cid n self (chrom, bin_set))) k
     = lines_of (contact_lists self) k
       @ (if k = pair_key chrom chrom \<and> chrom \<in> set (chromosome_list self) \<and> 1 < length bin_set
          then map (\<lambda>(start1, start2). contact_line start1 start2 (int (length bin_set)))
                 (combinations2 (iter bin_set))
          else [])"
  by (simp add: intra_chrom_eq lines_of_append_all)

lemma intra_contacts_other:
  "chrom \<notin> fst ` set bins \<Longrightarrow>
   lines_of (contact_lists (intra_contacts iter self cid bins n)) (pair_key chrom chrom)
     = lines_of (contact_lists self) (pair_key chrom chrom)"
  unfolding intra_contacts_def
proof (induction bins arbitrary: self)
  case Nil
  then show ?case by simp
next
  case (Cons b bins)
  obtain c ps where b: "b = (c, ps)" by (cases b)
  with Cons.prems have "c \<noteq> chrom" "chrom \<notin> fst ` set bins" by auto
  then have "pair_key chrom chrom \<noteq> pair_key c c" by (auto dest: pair_key_same)
  with Cons.IH[OF \<open>chrom \<notin> fst ` set bins\<close>] show ?case
    by (simp add: b intra_chrom_lines)
qed

lemma intra_contacts_lines:
  assumes "distinct (map fst bins)" and "(chrom, bin_set) \<in> set bins"
  shows "lines_of (contact_lists (intra_contacts iter self cid bins n)) (pair_key chrom chrom)
           = lines_of (contact_lists self) (pair_key chrom chrom)
             @ (if chrom \<in> set (chromosome_list self) \<and> 1 < length bin_set
                then map (\<lambda>(start1, start2). contact_line start1 start2 (int (length bin_set)))
                       (combinations2 (iter bin_set))
                else [])"
  using assms
proof (induction bins arbitrary: self)
  case Nil
  then show ?case by simp
next
  case (Cons b bins)
  obtain c ps where b: "b = (c, ps)" by (cases b)
  show ?case
  proof (cases "b = (chrom, bin_set)")
    case True
    with Cons.prems(1) have "chrom \<notin> fst ` set bins" by (auto simp: image_iff)
    from intra_contacts_other[OF this, of iter "intra_chrom iter cid n self (chrom, bin_set)" cid n]
    show ?thesis
      using True
      by (simp add: intra_contacts_def intra_chrom_lines)
  next
    case False
    with Cons.prems have in': "(chrom, bin_set) \<in> set bins" and d: "distinct (map fst bins)"
      by auto
    with Cons.prems(1) b have "c \<noteq> chrom" by (auto simp: image_iff)
    then have k: "pair_key chrom chrom \<noteq> pair_key c c" by (auto dest: pair_key_same)
    from Cons.IH[OF d in', of "intra_chrom iter cid n self b"] k show ?thesis
      by (simp add: intra_contacts_def b intra_chrom_lines intra_chrom_chromosome_list)
  qed
qed

lemma process_line_eligible:
  assumes "py_split line = cid # reads"
    and "min_cluster_size self \<le> int (length reads)" and "int (length reads) \<le> max_cluster_size self"
    and "read_loop (start_only self) cid ([], rows) reads = Inr (bins, rows')"
  shows "process_line iter (self, rows) line
           = Inr (inter_contacts iter (intra_contacts iter self cid bins (int (length reads))) cid bins
                    (int (length reads)), rows')"
  using assms by (simp add: process_line_def Let_def)

lemma foldl_product:
  "foldl (\<lambda>s a. foldl (\<lambda>s b. f s a b) s ys) s xs
     = foldl (\<lambda>s (a, b). f s a b) s (List.product xs ys)"
proof (induction xs arbitrary: s)
  case Nil
  then show ?case by simp
next
  case (Cons x xs)
  have "foldl (\<lambda>s (a, b). f s a b) s (map (Pair x) ys) = foldl (\<lambda>s b. f s x b) s ys" for s
    by (induction ys arbitrary: s) simp_all
  with Cons show ?case by simp
qed

text \<open>What the loops over the two position sets of a pair do to the object, for every pair.\<close>

lemma inter_pair_eq:
  "inter_pair iter cid n self (chrom1, bin_set1) (chrom2, bin_set2)
     = (if chrom1 \<in> set (chromosome_list self) \<and> chrom2 \<in> set (chromosome_list self)
        then self\<lparr>contact_lists :=
               foldl (\<lambda>d l. dd_append d (pair_key (min chrom1 chrom2) (max chrom1 chrom2)) l)
                 (contact_lists self)
                 (map (\<lambda>(start1, start2).
                         if chrom1 \<le> chrom2
                         then contact_line start1 start2 (int (length bin_set1) + int (length bin_set2))
                         else contact_line start2 start1 (int (length bin_set1) + int (length bin_set2)))
                    (List.product (iter bin_set1) (iter bin_set2)))\<rparr>
        else self)"
proof -
  have e: "inter_pair iter cid n self (chrom1, bin_set1) (chrom2, bin_set2)
      = foldl (\<lambda>self (start1, start2).
                  add_contact_to_list self cid chrom1 start1 chrom2 start2 n
                    (int (length bin_set1) + int (length bin_set2)))
          self (List.product (iter bin_set1) (iter bin_set2))"
    by (simp add: inter_pair_def Let_def foldl_product)
  show ?thesis
  proof (cases "chrom1 \<in> set (chromosome_list self) \<and> chrom2 \<in> set (chromosome_list self)")
    case True
    then show ?thesis
      unfolding e by (simp add: foldl_add_contact)
  next
    case False
    then have "chrom1 \<notin> set (chromosome_list self) \<or> chrom2 \<notin> set (chromosome_list self)" by simp
    from foldl_add_contact_invalid[OF this] have "foldl (\<lambda>self (start1, start2).
                  add_contact_to_list self cid chrom1 start1 chrom2 start2 n
                    (int (length bin_set1) + int (length bin_set2)))
          self (List.product (iter bin_set1) (iter bin_set2)) = self" .
    with False show ?thesis
      unfolding e by auto
  qed
qed

lemma inter_loop_fold:
  "inter_loop iter cid n self bins
     = foldl (\<lambda>self (b1, b2). inter_pair iter cid n self b1 b2) self (combinations2 bins)"
proof (induction bins arbitrary: self)
  case Nil
  then show ?case by simp
next
  case (Cons b bins)
  have "foldl (\<lambda>self (b1, b2). inter_pair iter cid n self b1 b2) self (map (Pair b) bins)
          = foldl (\<lambda>self b2. inter_pair iter cid n self b b2) self bins" for self
    by (induction bins arbitrary: self) simp_all
  with Cons show ?case by simp
qed

lemma inter_contacts_fold:
  "inter_contacts iter self cid bins n
     = foldl (\<lambda>self (b1, b2). inter_pair iter cid n self b1 b2) self (combinations2 bins)"
proof (cases "1 < length bins")
  case True
  then show ?thesis by (simp add: inter_contacts_def inter_loop_fold)
next
  case False
  then have "combinations2 bins = []"
    by (cases bins) (auto simp: Suc_le_eq)
  with False show ?thesis by (simp add: inter_contacts_def)
qed

text \<open>
  C7. The bins of a cluster have pairwise different chromosomes, and the bin of a chromosome
  holds each start position once. The loop over a bin appends exactly the lines of the pairs
  of \<^verbatim>\<open>combinations(bin_set, 2)\<close> (and nothing for a chromosome outside the registry or a bin
  of one position); the two positions of such a pair are different, and so is its line from
  every line of a position with itself. The loop over the bins of a cluster within the size
  bounds is made of these bodies. Two reads at one chromosome and one start position give one
  bin with one position, and a cluster of these two reads leaves the contact store as it
  was.
\<close>

theorem duplicate_positions_collapse:
  assumes "enumerates iter"
  shows
  "(read_loop so cluster_id ([], rows) reads = Inr (bins, rows') \<and> (chrom, bin_set) \<in> set bins
      \<longrightarrow> distinct (map fst bins) \<and> distinct bin_set
        \<and> intra_chrom iter cluster_id reads_len self (chrom, bin_set)
            = self\<lparr>contact_lists :=
                foldl (\<lambda>d l. dd_append d (pair_key chrom chrom) l) (contact_lists self)
                  (if chrom \<in> set (chromosome_list self) \<and> 1 < length bin_set
                   then map (\<lambda>(start1, start2). contact_line start1 start2 (int (length bin_set)))
                          (combinations2 (iter bin_set))
                   else [])\<rparr>
        \<and> (\<forall>(start1, start2) \<in> set (combinations2 (iter bin_set)).
              start1 \<noteq> start2
              \<and> (\<forall>start weight weight'.
                    contact_line start1 start2 weight \<noteq> contact_line start start weight')))
   \<and> (py_split line = cluster_id # reads
       \<and> min_cluster_size self \<le> int (length reads) \<and> int (length reads) \<le> max_cluster_size self
       \<and> read_loop (start_only self) cluster_id ([], rows) reads = Inr (bins, rows')
      \<longrightarrow> process_line iter (self, rows) line
            = Inr (inter_contacts iter
                     (foldl (intra_chrom iter cluster_id (int (length reads))) self bins)
                     cluster_id bins (int (length reads)), rows'))
   \<and> (py_split line = [cluster_id, read1, read2]
       \<and> read_loop (start_only self) cluster_id ([], []) [read1] = Inr ([(chrom, [x])], rows1)
       \<and> read_loop (start_only self) cluster_id ([], []) [read2] = Inr ([(chrom, [x])], rows2)
      \<longrightarrow> read_loop (start_only self) cluster_id ([], []) [read1, read2]
            = Inr ([(chrom, [x])], rows1 @ rows2)
        \<and> (\<exists>rows''. process_line iter (self, rows) line = Inr (self, rows'')))"
proof (intro conjI impI)
  assume a: "read_loop so cluster_id ([], rows) reads = Inr (bins, rows') \<and> (chrom, bin_set) \<in> set bins"
  from cluster_bins(1)[OF a[THEN conjunct1]] show "distinct (map fst bins)" .
  from cluster_bins(2)[OF a[THEN conjunct1] a[THEN conjunct2]] show d: "distinct bin_set" .
  show "intra_chrom iter cluster_id reads_len self (chrom, bin_set)
            = self\<lparr>contact_lists :=
                foldl (\<lambda>d l. dd_append d (pair_key chrom chrom) l) (contact_lists self)
                  (if chrom \<in> set (chromosome_list self) \<and> 1 < length bin_set
                   then map (\<lambda>(start1, start2). contact_line start1 start2 (int (length bin_set)))
                          (combinations2 (iter bin_set))
                   else [])\<rparr>"
    by (rule intra_chrom_eq)
  have "distinct (iter bin_set)" by (rule enumerates_distinct[OF assms d])
  then have "start1 \<noteq> start2" if "(start1, start2) \<in> set (combinations2 (iter bin_set))"
    for start1 start2
    using that by (rule combinations2_distinct_pairs)
  then show "\<forall>(start1, start2) \<in> set (combinations2 (iter bin_set)).
              start1 \<noteq> start2
              \<and> (\<forall>start weight weight'.
                    contact_line start1 start2 weight \<noteq> contact_line start start weight')"
    by (auto dest: contact_line_inject)
next
  assume a: "py_split line = cluster_id # reads
       \<and> min_cluster_size self \<le> int (length reads) \<and> int (length reads) \<le> max_cluster_size self
       \<and> read_loop (start_only self) cluster_id ([], rows) reads = Inr (bins, rows')"
  then show "process_line iter (self, rows) line
            = Inr (inter_contacts iter
                     (foldl (intra_chrom iter cluster_id (int (length reads))) self bins)
                     cluster_id bins (int (length reads)), rows')"
    using process_line_eligible[of line cluster_id reads self rows bins rows' iter]
    by (simp add: intra_contacts_def)
next
  assume a: "py_split line = [cluster_id, read1, read2]
       \<and> read_loop (start_only self) cluster_id ([], []) [read1] = Inr ([(chrom, [x])], rows1)
       \<and> read_loop (start_only self) cluster_id ([], []) [read2] = Inr ([(chrom, [x])], rows2)"
  from read_loop_single[of "start_only self" cluster_id read1 chrom x rows1] a obtain row1 where
    1: "rows1 = [row1]"
      "\<And>bins rows. read_step (start_only self) cluster_id (bins, rows) read1
            = Inr (bins_add bins chrom x, rows @ [row1])"
    by blast
  from read_loop_single[of "start_only self" cluster_id read2 chrom x rows2] a obtain row2 where
    2: "rows2 = [row2]"
      "\<And>bins rows. read_step (start_only self) cluster_id (bins, rows) read2
            = Inr (bins_add bins chrom x, rows @ [row2])"
    by blast
  have l: "read_loop (start_only self) cluster_id ([], rs) [read1, read2]
            = Inr ([(chrom, [x])], rs @ rows1 @ rows2)" for rs
    by (simp add: 1 2 set_add_def)
  from l[of "[]"] show "read_loop (start_only self) cluster_id ([], []) [read1, read2]
            = Inr ([(chrom, [x])], rows1 @ rows2)" by simp
  show "\<exists>rows''. process_line iter (self, rows) line = Inr (self, rows'')"
    using a l[of rows]
    by (simp add: process_line_def Let_def intra_contacts_def intra_chrom_def inter_contacts_def)
qed

theorem duplicate_positions_collapse_witness:
  "read_loop False ''c1'' ([], []) [''a_chr1:30-40'', ''b_chr1:30-45'', ''d_chr1:10-20'']
     = Inr ([(''chr1'', [30, 10])],
            [Row4 ''chr1'' ''30'' ''40'' ''c1'', Row4 ''chr1'' ''30'' ''45'' ''c1'',
             Row4 ''chr1'' ''10'' ''20'' ''c1''])
   \<and> combinations2 (slot_order [30, 10]) = [(10, 30)]
   \<and> intra_chrom slot_order ''c1'' 3 example_visu (''chr1'', [30, 10])
       = example_visu\<lparr>contact_lists := [(''chr1-chr1'', [''10,30,2''])]\<rparr>
   \<and> process_line slot_order (example_visu, []) ''c1 a_chr1:30-40 b_chr1:30-45 d_chr1:10-20''
       = Inr (example_visu\<lparr>contact_lists := [(''chr1-chr1'', [''10,30,2''])]\<rparr>,
              [Row4 ''chr1'' ''30'' ''40'' ''c1'', Row4 ''chr1'' ''30'' ''45'' ''c1'',
               Row4 ''chr1'' ''10'' ''20'' ''c1''])
   \<and> py_split ''c1 a_chr1:10-20 b_chr1:10-30'' = [''c1'', ''a_chr1:10-20'', ''b_chr1:10-30'']
   \<and> read_loop False ''c1'' ([], []) [''a_chr1:10-20'', ''b_chr1:10-30'']
       = Inr ([(''chr1'', [10])], [Row4 ''chr1'' ''10'' ''20'' ''c1''] @ [Row4 ''chr1'' ''10'' ''30'' ''c1''])
   \<and> (\<exists>rows''. process_line slot_order (example_visu, []) ''c1 a_chr1:10-20 b_chr1:10-30''
                  = Inr (example_visu, rows''))"
proof -
  let ?reads = "[''a_chr1:30-40'', ''b_chr1:30-45'', ''d_chr1:10-20'']"
  let ?rows = "[Row4 ''chr1'' ''30'' ''40'' ''c1'', Row4 ''chr1'' ''30'' ''45'' ''c1'',
             Row4 ''chr1'' ''10'' ''20'' ''c1'']"
  have so: "start_only example_visu = False" by (simp add: example_visu_def)
  have 1: "read_loop False ''c1'' ([], []) ?reads = Inr ([(''chr1'', [30, 10])], ?rows)"
    by code_simp
  have 2: "(''chr1'', [30, 10]) \<in> set [(''chr1'', [30, 10 :: int])]" by simp
  have c: "combinations2 (slot_order [30, 10]) = [(10, 30)]" by code_simp
  have reg: "''chr1'' \<in> set (chromosome_list example_visu)" by (simp add: example_visu_def)
  have lines: "foldl (\<lambda>d l. dd_append d (pair_key ''chr1'' ''chr1'') l) (contact_lists example_visu)
                 (map (\<lambda>(start1, start2). contact_line start1 start2 2) [(10, 30)])
               = [(''chr1-chr1'', [''10,30,2''])]"
    by code_simp
  have p: "py_split ''c1 a_chr1:30-40 b_chr1:30-45 d_chr1:10-20'' = ''c1'' # ?reads" by code_simp
  have mn: "min_cluster_size example_visu \<le> int (length ?reads)"
    and mx: "int (length ?reads) \<le> max_cluster_size example_visu"
    by (simp_all add: example_visu_def)
  have pl: "process_line slot_order (example_visu, []) ''c1 a_chr1:30-40 b_chr1:30-45 d_chr1:10-20''
       = Inr (example_visu\<lparr>contact_lists := [(''chr1-chr1'', [''10,30,2''])]\<rparr>, ?rows)"
    by code_simp
  have 3: "py_split ''c1 a_chr1:10-20 b_chr1:10-30'' = [''c1'', ''a_chr1:10-20'', ''b_chr1:10-30'']"
    by code_simp
  have 4: "read_loop (start_only example_visu) ''c1'' ([], []) [''a_chr1:10-20'']
             = Inr ([(''chr1'', [10])], [Row4 ''chr1'' ''10'' ''20'' ''c1''])"
    and 5: "read_loop (start_only example_visu) ''c1'' ([], []) [''b_chr1:10-30'']
             = Inr ([(''chr1'', [10])], [Row4 ''chr1'' ''10'' ''30'' ''c1''])"
    by code_simp+
  note t1 = duplicate_positions_collapse[OF enumerates_slot_order,
      where so = False and cluster_id = "''c1''" and rows = "[]" and reads = ?reads
      and bins = "[(''chr1'', [30, 10])]" and rows' = ?rows and chrom = "''chr1''"
      and bin_set = "[30, 10]" and reads_len = 3 and self = example_visu
      and line = "''c1 a_chr1:30-40 b_chr1:30-45 d_chr1:10-20''"]
  from t1 1 2 reg c lines
  have i: "intra_chrom slot_order ''c1'' 3 example_visu (''chr1'', [30, 10])
       = example_visu\<lparr>contact_lists := [(''chr1-chr1'', [''10,30,2''])]\<rparr>"
    by simp
  note t2 = duplicate_positions_collapse[OF enumerates_slot_order,
      where cluster_id = "''c1''" and rows = "[]" and chrom = "''chr1''" and self = example_visu
      and line = "''c1 a_chr1:10-20 b_chr1:10-30''"
      and ?read1.0 = "''a_chr1:10-20''" and ?read2.0 = "''b_chr1:10-30''"
      and x = 10 and ?rows1.0 = "[Row4 ''chr1'' ''10'' ''20'' ''c1'']"
      and ?rows2.0 = "[Row4 ''chr1'' ''10'' ''30'' ''c1'']"]
  from t2 3 4 5 so
  have d: "read_loop False ''c1'' ([], []) [''a_chr1:10-20'', ''b_chr1:10-30'']
       = Inr ([(''chr1'', [10])], [Row4 ''chr1'' ''10'' ''20'' ''c1''] @ [Row4 ''chr1'' ''10'' ''30'' ''c1''])"
    and u: "\<exists>rows''. process_line slot_order (example_visu, []) ''c1 a_chr1:10-20 b_chr1:10-30''
                  = Inr (example_visu, rows'')"
    by simp_all
  from 1 c i pl 3 d u show ?thesis by simp
qed

text \<open>
  C2, as stated, fails for a chromosome outside the registry: its contacts are dropped. Here a
  cluster of two reads, within the bounds 2 and 10, whose chromosome has two positions: the
  contact store stays empty.
\<close>

theorem intrachromosomal_contacts_counterexample:
  "read_loop False ''c1'' ([], []) [''readA_chrX:10-20'', ''readB_chrX:30-40'']
     = Inr ([(''chrX'', [10, 30])],
            [Row4 ''chrX'' ''10'' ''20'' ''c1'', Row4 ''chrX'' ''30'' ''40'' ''c1''])
   \<and> process_line slot_order (example_visu, []) ''c1 readA_chrX:10-20 readB_chrX:30-40''
     = Inr (example_visu, [Row4 ''chrX'' ''10'' ''20'' ''c1'', Row4 ''chrX'' ''30'' ''40'' ''c1''])
   \<and> contact_lists example_visu = []"
  by code_simp

text \<open>
  C2, amended. Take a cluster within the size bounds and a chromosome whose bin has
  \<open>k \<ge> 2\<close> positions, in whatever order the set is iterated. If the chromosome is in the
  registry, the loop over the bins appends under the key of the chromosome exactly the lines
  of \<^verbatim>\<open>combinations(bin_set, 2)\<close>, each with weight \<open>k\<close>: these are \<open>k (k - 1) / 2\<close>
  lines, one for each unordered pair of different positions. If it is not, the loop appends
  no line under this key, and the body of the loop for this chromosome leaves the object as
  it was.
\<close>

theorem intrachromosomal_contact_count:
  assumes "enumerates iter"
    and "py_split line = cluster_id # reads"
    and "min_cluster_size self \<le> int (length reads)"
    and "int (length reads) \<le> max_cluster_size self"
    and "read_loop (start_only self) cluster_id ([], rows) reads = Inr (bins, rows')"
    and "(chrom, bin_set) \<in> set bins"
    and "2 \<le> length bin_set"
  shows "process_line iter (self, rows) line
           = Inr (inter_contacts iter (intra_contacts iter self cluster_id bins (int (length reads)))
                    cluster_id bins (int (length reads)), rows')
       \<and> lines_of (contact_lists (intra_contacts iter self cluster_id bins (int (length reads))))
             (pair_key chrom chrom)
           = lines_of (contact_lists self) (pair_key chrom chrom)
             @ (if chrom \<in> set (chromosome_list self)
                then map (\<lambda>(start1, start2). contact_line start1 start2 (int (length bin_set)))
                       (combinations2 (iter bin_set))
                else [])
       \<and> length (combinations2 (iter bin_set)) = length bin_set * (length bin_set - 1) div 2
       \<and> distinct bin_set
       \<and> (\<forall>start1 start2. start1 \<in> set bin_set \<and> start2 \<in> set bin_set \<and> start1 \<noteq> start2
            \<longrightarrow> count_list (combinations2 (iter bin_set)) (start1, start2)
                + count_list (combinations2 (iter bin_set)) (start2, start1) = 1)
       \<and> (chrom \<notin> set (chromosome_list self) \<and> chromosome_list self1 = chromosome_list self
            \<longrightarrow> intra_chrom iter cluster_id (int (length reads)) self1 (chrom, bin_set) = self1)"
proof -
  have d: "distinct bin_set" by (rule cluster_bins(2)[OF assms(5,6)])
  have di: "distinct (iter bin_set)" by (rule enumerates_distinct[OF assms(1) d])
  have si: "set (iter bin_set) = set bin_set" by (rule enumerates_set[OF assms(1) d])
  have li: "length (iter bin_set) = length bin_set" by (rule enumerates_length[OF assms(1) d])
  have l: "1 < length bin_set" using assms(7) by simp
  have un: "intra_chrom iter cluster_id (int (length reads)) self1 (chrom, bin_set) = self1"
    if "chrom \<notin> set (chromosome_list self)" "chromosome_list self1 = chromosome_list self"
    using that by (simp add: intra_chrom_eq)
  from process_line_eligible[OF assms(2-5)]
    intra_contacts_lines[OF cluster_bins(1)[OF assms(5)] assms(6)]
    combinations2_length[of "iter bin_set"] d combinations2_once[OF di] si li l un
  show ?thesis by simp
qed

theorem intrachromosomal_contact_count_witness:
  "py_split ''c1 readA_chr1:30-40 readB_chr1:10-20''
     = ''c1'' # [''readA_chr1:30-40'', ''readB_chr1:10-20'']
   \<and> read_loop False ''c1'' ([], []) [''readA_chr1:30-40'', ''readB_chr1:10-20'']
       = Inr ([(''chr1'', [30, 10])],
              [Row4 ''chr1'' ''30'' ''40'' ''c1'', Row4 ''chr1'' ''10'' ''20'' ''c1''])
   \<and> lines_of (contact_lists (intra_contacts slot_order example_visu ''c1'' [(''chr1'', [30, 10])] 2))
         ''chr1-chr1'' = [''10,30,2'']
   \<and> length (combinations2 (slot_order [30, 10])) = 1
   \<and> count_list (combinations2 (slot_order [30, 10])) (10, 30)
       + count_list (combinations2 (slot_order [30, 10])) (30, 10) = 1
   \<and> read_loop False ''c1'' ([], []) [''readA_chrX:10-20'', ''readB_chrX:30-40'']
       = Inr ([(''chrX'', [10, 30])],
              [Row4 ''chrX'' ''10'' ''20'' ''c1'', Row4 ''chrX'' ''30'' ''40'' ''c1''])
   \<and> lines_of (contact_lists (intra_contacts slot_order example_visu ''c1'' [(''chrX'', [10, 30])] 2))
         ''chrX-chrX'' = []
   \<and> intra_chrom slot_order ''c1'' 2 example_visu (''chrX'', [10, 30]) = example_visu"
proof -
  let ?reads = "[''readA_chr1:30-40'', ''readB_chr1:10-20'']"
  let ?bins = "[(''chr1'', [30, 10 :: int])]"
  let ?rows = "[Row4 ''chr1'' ''30'' ''40'' ''c1'', Row4 ''chr1'' ''10'' ''20'' ''c1'']"
  let ?readsX = "[''readA_chrX:10-20'', ''readB_chrX:30-40'']"
  let ?binsX = "[(''chrX'', [10, 30 :: int])]"
  let ?rowsX = "[Row4 ''chrX'' ''10'' ''20'' ''c1'', Row4 ''chrX'' ''30'' ''40'' ''c1'']"
  have so: "start_only example_visu = False" by (simp add: example_visu_def)
  have 1: "py_split ''c1 readA_chr1:30-40 readB_chr1:10-20'' = ''c1'' # ?reads" by code_simp
  have 2: "min_cluster_size example_visu \<le> int (length ?reads)"
    and 3: "int (length ?reads) \<le> max_cluster_size example_visu"
    by (simp_all add: example_visu_def)
  have r: "read_loop False ''c1'' ([], []) ?reads = Inr (?bins, ?rows)" by code_simp
  then have 4: "read_loop (start_only example_visu) ''c1'' ([], []) ?reads = Inr (?bins, ?rows)"
    by (simp add: so)
  have 5: "(''chr1'', [30, 10]) \<in> set ?bins" by simp
  have 7: "2 \<le> length [30, 10 :: int]" by simp
  have reg: "''chr1'' \<in> set (chromosome_list example_visu)" by (simp add: example_visu_def)
  have k: "pair_key ''chr1'' ''chr1'' = ''chr1-chr1''" by (simp add: pair_key_def)
  have e: "lines_of (contact_lists example_visu) ''chr1-chr1'' = []"
    by (simp add: example_visu_def lines_of_def)
  have c: "combinations2 (slot_order [30, 10]) = [(10, 30)]" by code_simp
  have cl: "contact_line 10 30 2 = ''10,30,2''" by code_simp
  from intrachromosomal_contact_count[OF enumerates_slot_order 1 2 3 4 5 7] reg k e c cl
  have a: "lines_of (contact_lists (intra_contacts slot_order example_visu ''c1'' ?bins 2))
             ''chr1-chr1'' = [''10,30,2'']"
    and b: "length (combinations2 (slot_order [30, 10])) = 1"
    and n: "count_list (combinations2 (slot_order [30, 10])) (10, 30)
            + count_list (combinations2 (slot_order [30, 10])) (30, 10) = 1"
    by simp_all
  have x1: "py_split ''c1 readA_chrX:10-20 readB_chrX:30-40'' = ''c1'' # ?readsX" by code_simp
  have x2: "min_cluster_size example_visu \<le> int (length ?readsX)"
    and x3: "int (length ?readsX) \<le> max_cluster_size example_visu"
    by (simp_all add: example_visu_def)
  have rx: "read_loop False ''c1'' ([], []) ?readsX = Inr (?binsX, ?rowsX)" by code_simp
  then have x4: "read_loop (start_only example_visu) ''c1'' ([], []) ?readsX = Inr (?binsX, ?rowsX)"
    by (simp add: so)
  have x5: "(''chrX'', [10, 30]) \<in> set ?binsX" by simp
  have x7: "2 \<le> length [10, 30 :: int]" by simp
  have unreg: "''chrX'' \<notin> set (chromosome_list example_visu)" by (simp add: example_visu_def)
  have kx: "pair_key ''chrX'' ''chrX'' = ''chrX-chrX''" by (simp add: pair_key_def)
  have ex: "lines_of (contact_lists example_visu) ''chrX-chrX'' = []"
    by (simp add: example_visu_def lines_of_def)
  from intrachromosomal_contact_count[OF enumerates_slot_order x1 x2 x3 x4 x5 x7,
      where ?self1.0 = example_visu] unreg kx ex
  have ax: "lines_of (contact_lists (intra_contacts slot_order example_visu ''c1'' ?binsX 2))
             ''chrX-chrX'' = []"
    and u: "intra_chrom slot_order ''c1'' 2 example_visu (''chrX'', [10, 30]) = example_visu"
    by simp_all
  from 1 r a b n rx ax u show ?thesis by simp
qed

text \<open>
  C3, as stated, fails when one of the two chromosomes is outside the registry: the contacts
  between them are dropped. Here a cluster of two reads, within the bounds 2 and 10, on
  \<open>chr1\<close> and on \<open>chrX\<close>: the contact store stays empty.
\<close>

theorem interchromosomal_contacts_counterexample:
  "read_loop False ''c1'' ([], []) [''readA_chr1:10-20'', ''readB_chrX:30-40'']
     = Inr ([(''chr1'', [10]), (''chrX'', [30])],
            [Row4 ''chr1'' ''10'' ''20'' ''c1'', Row4 ''chrX'' ''30'' ''40'' ''c1''])
   \<and> process_line slot_order (example_visu, []) ''c1 readA_chr1:10-20 readB_chrX:30-40''
     = Inr (example_visu, [Row4 ''chr1'' ''10'' ''20'' ''c1'', Row4 ''chrX'' ''30'' ''40'' ''c1''])
   \<and> contact_lists example_visu = []"
  by code_simp

text \<open>
  C3, amended. Take a cluster within the size bounds and two different chromosomes of its
  bins, with \<open>m\<close> and \<open>n\<close> positions, in whatever order the sets are iterated. The loop over
  the pairs of chromosomes runs the loops over the two position sets exactly once for this
  pair, in one of the two orders. If both chromosomes are in the registry, these loops
  append, under the key of the pair, exactly the lines of the cross product of the two
  position sets, \<open>m n\<close> lines, each with weight \<open>m + n\<close>, and change nothing else; if one of
  them is not, they leave the object as it was. (\<open>self1\<close> is the object when the loops of
  the pair start: any object with the registry of the run.)
\<close>

theorem interchromosomal_contact_count:
  assumes "enumerates iter"
    and "py_split line = cluster_id # reads"
    and "min_cluster_size self \<le> int (length reads)"
    and "int (length reads) \<le> max_cluster_size self"
    and "read_loop (start_only self) cluster_id ([], rows) reads = Inr (bins, rows')"
    and "(chrom1, bin_set1) \<in> set bins" and "(chrom2, bin_set2) \<in> set bins"
    and "chrom1 \<noteq> chrom2"
    and "chromosome_list self1 = chromosome_list self"
  shows "process_line iter (self, rows) line
           = Inr (inter_contacts iter (intra_contacts iter self cluster_id bins (int (length reads)))
                    cluster_id bins (int (length reads)), rows')
       \<and> inter_contacts iter self1 cluster_id bins (int (length reads))
           = foldl (\<lambda>self (b1, b2). inter_pair iter cluster_id (int (length reads)) self b1 b2) self1
               (combinations2 bins)
       \<and> count_list (combinations2 bins) ((chrom1, bin_set1), (chrom2, bin_set2))
           + count_list (combinations2 bins) ((chrom2, bin_set2), (chrom1, bin_set1)) = 1
       \<and> inter_pair iter cluster_id (int (length reads)) self1 (chrom1, bin_set1) (chrom2, bin_set2)
           = (if chrom1 \<in> set (chromosome_list self) \<and> chrom2 \<in> set (chromosome_list self)
              then self1\<lparr>contact_lists :=
                     foldl (\<lambda>d l. dd_append d (pair_key (min chrom1 chrom2) (max chrom1 chrom2)) l)
                       (contact_lists self1)
                       (map (\<lambda>(start1, start2).
                               if chrom1 \<le> chrom2
                               then contact_line start1 start2
                                      (int (length bin_set1) + int (length bin_set2))
                               else contact_line start2 start1
                                      (int (length bin_set1) + int (length bin_set2)))
                          (List.product (iter bin_set1) (iter bin_set2)))\<rparr>
              else self1)
       \<and> length (List.product (iter bin_set1) (iter bin_set2)) = length bin_set1 * length bin_set2
       \<and> set (List.product (iter bin_set1) (iter bin_set2)) = set bin_set1 \<times> set bin_set2
       \<and> distinct (List.product (iter bin_set1) (iter bin_set2))
       \<and> distinct bin_set1 \<and> distinct bin_set2"
proof -
  have "distinct (map fst bins)" by (rule cluster_bins(1)[OF assms(5)])
  then have d: "distinct bins" by (rule distinct_map[THEN iffD1, THEN conjunct1])
  have ne: "(chrom1, bin_set1) \<noteq> (chrom2, bin_set2)" using assms(8) by simp
  have d1: "distinct bin_set1" by (rule cluster_bins(2)[OF assms(5,6)])
  have d2: "distinct bin_set2" by (rule cluster_bins(2)[OF assms(5,7)])
  note e1 = enumerates_distinct[OF assms(1) d1] enumerates_set[OF assms(1) d1]
    enumerates_length[OF assms(1) d1]
  note e2 = enumerates_distinct[OF assms(1) d2] enumerates_set[OF assms(1) d2]
    enumerates_length[OF assms(1) d2]
  from process_line_eligible[OF assms(2-5)]
    inter_contacts_fold[of iter self1 cluster_id bins "int (length reads)"]
    combinations2_once[OF d assms(6,7) ne]
    inter_pair_eq[of iter cluster_id "int (length reads)" self1 chrom1 bin_set1 chrom2 bin_set2]
    d1 d2 e1 e2 assms(9)
  show ?thesis by (simp add: distinct_product)
qed

theorem interchromosomal_contact_count_witness:
  "py_split ''c1 readA_chr1:30-40 readB_chr1:10-20 readC_chr2:5-15''
     = ''c1'' # [''readA_chr1:30-40'', ''readB_chr1:10-20'', ''readC_chr2:5-15'']
   \<and> read_loop False ''c1'' ([], []) [''readA_chr1:30-40'', ''readB_chr1:10-20'', ''readC_chr2:5-15'']
       = Inr ([(''chr1'', [30, 10]), (''chr2'', [5])],
              [Row4 ''chr1'' ''30'' ''40'' ''c1'', Row4 ''chr1'' ''10'' ''20'' ''c1'',
               Row4 ''chr2'' ''5'' ''15'' ''c1''])
   \<and> count_list (combinations2 [(''chr1'', [30, 10 :: int]), (''chr2'', [5])])
         ((''chr1'', [30, 10]), (''chr2'', [5]))
       + count_list (combinations2 [(''chr1'', [30, 10 :: int]), (''chr2'', [5])])
         ((''chr2'', [5]), (''chr1'', [30, 10])) = 1
   \<and> inter_pair slot_order ''c1'' 3 example_visu (''chr1'', [30, 10]) (''chr2'', [5])
       = example_visu\<lparr>contact_lists := [(''chr1-chr2'', [''10,5,3'', ''30,5,3''])]\<rparr>
   \<and> length (List.product (slot_order [30, 10]) (slot_order [5])) = 2 * 1
   \<and> read_loop False ''c1'' ([], []) [''readA_chr1:10-20'', ''readB_chrX:30-40'']
       = Inr ([(''chr1'', [10]), (''chrX'', [30])],
              [Row4 ''chr1'' ''10'' ''20'' ''c1'', Row4 ''chrX'' ''30'' ''40'' ''c1''])
   \<and> inter_pair slot_order ''c1'' 2 example_visu (''chr1'', [10]) (''chrX'', [30]) = example_visu"
proof -
  let ?reads = "[''readA_chr1:30-40'', ''readB_chr1:10-20'', ''readC_chr2:5-15'']"
  let ?bins = "[(''chr1'', [30, 10 :: int]), (''chr2'', [5])]"
  let ?rows = "[Row4 ''chr1'' ''30'' ''40'' ''c1'', Row4 ''chr1'' ''10'' ''20'' ''c1'',
               Row4 ''chr2'' ''5'' ''15'' ''c1'']"
  let ?readsX = "[''readA_chr1:10-20'', ''readB_chrX:30-40'']"
  let ?binsX = "[(''chr1'', [10 :: int]), (''chrX'', [30])]"
  let ?rowsX = "[Row4 ''chr1'' ''10'' ''20'' ''c1'', Row4 ''chrX'' ''30'' ''40'' ''c1'']"
  have so: "start_only example_visu = False" by (simp add: example_visu_def)
  have 1: "py_split ''c1 readA_chr1:30-40 readB_chr1:10-20 readC_chr2:5-15'' = ''c1'' # ?reads"
    by code_simp
  have 2: "min_cluster_size example_visu \<le> int (length ?reads)"
    and 3: "int (length ?reads) \<le> max_cluster_size example_visu"
    by (simp_all add: example_visu_def)
  have r: "read_loop False ''c1'' ([], []) ?reads = Inr (?bins, ?rows)" by code_simp
  then have 4: "read_loop (start_only example_visu) ''c1'' ([], []) ?reads = Inr (?bins, ?rows)"
    by (simp add: so)
  have 5: "(''chr1'', [30, 10]) \<in> set ?bins" and 6: "(''chr2'', [5]) \<in> set ?bins" by simp_all
  have 7: "''chr1'' \<noteq> ''chr2''" by simp
  have reg: "''chr1'' \<in> set (chromosome_list example_visu)"
    "''chr2'' \<in> set (chromosome_list example_visu)" by (simp_all add: example_visu_def)
  have lines: "foldl (\<lambda>d l. dd_append d (pair_key (min ''chr1'' ''chr2'') (max ''chr1'' ''chr2'')) l)
                 (contact_lists example_visu)
                 (map (\<lambda>(start1, start2).
                         if ''chr1'' \<le> ''chr2''
                         then contact_line start1 start2 (int (length [30, 10 :: int]) + int (length [5 :: int]))
                         else contact_line start2 start1 (int (length [30, 10 :: int]) + int (length [5 :: int])))
                    (List.product (slot_order [30, 10]) (slot_order [5])))
               = [(''chr1-chr2'', [''10,5,3'', ''30,5,3''])]"
    by code_simp
  from interchromosomal_contact_count[OF enumerates_slot_order 1 2 3 4 5 6 7 refl]
  have c: "count_list (combinations2 ?bins) ((''chr1'', [30, 10]), (''chr2'', [5]))
       + count_list (combinations2 ?bins) ((''chr2'', [5]), (''chr1'', [30, 10])) = 1"
    and p: "inter_pair slot_order ''c1'' (int (length ?reads)) example_visu (''chr1'', [30, 10]) (''chr2'', [5])
       = (if ''chr1'' \<in> set (chromosome_list example_visu) \<and> ''chr2'' \<in> set (chromosome_list example_visu)
          then example_visu\<lparr>contact_lists :=
                 foldl (\<lambda>d l. dd_append d (pair_key (min ''chr1'' ''chr2'') (max ''chr1'' ''chr2'')) l)
                 (contact_lists example_visu)
                 (map (\<lambda>(start1, start2).
                         if ''chr1'' \<le> ''chr2''
                         then contact_line start1 start2 (int (length [30, 10 :: int]) + int (length [5 :: int]))
                         else contact_line start2 start1 (int (length [30, 10 :: int]) + int (length [5 :: int])))
                    (List.product (slot_order [30, 10]) (slot_order [5])))\<rparr>
          else example_visu)"
    and l: "length (List.product (slot_order [30, 10]) (slot_order [5]))
              = length [30, 10 :: int] * length [5 :: int]"
    by blast+
  from p reg have px: "inter_pair slot_order ''c1'' 3 example_visu (''chr1'', [30, 10]) (''chr2'', [5])
       = example_visu\<lparr>contact_lists := [(''chr1-chr2'', [''10,5,3'', ''30,5,3''])]\<rparr>"
    by (simp only: lines) simp
  have x1: "py_split ''c1 readA_chr1:10-20 readB_chrX:30-40'' = ''c1'' # ?readsX" by code_simp
  have x2: "min_cluster_size example_visu \<le> int (length ?readsX)"
    and x3: "int (length ?readsX) \<le> max_cluster_size example_visu"
    by (simp_all add: example_visu_def)
  have rx: "read_loop False ''c1'' ([], []) ?readsX = Inr (?binsX, ?rowsX)" by code_simp
  then have x4: "read_loop (start_only example_visu) ''c1'' ([], []) ?readsX = Inr (?binsX, ?rowsX)"
    by (simp add: so)
  have x5: "(''chr1'', [10]) \<in> set ?binsX" and x6: "(''chrX'', [30]) \<in> set ?binsX" by simp_all
  have x7: "''chr1'' \<noteq> ''chrX''" by simp
  have unreg: "''chrX'' \<notin> set (chromosome_list example_visu)" by (simp add: example_visu_def)
  from interchromosomal_contact_count[OF enumerates_slot_order x1 x2 x3 x4 x5 x6 x7 refl] unreg
  have u: "inter_pair slot_order ''c1'' 2 example_visu (''chr1'', [10]) (''chrX'', [30]) = example_visu"
    by simp
  from 1 r c px l rx u show ?thesis by simp
qed

subsection \<open>Loading the registry\<close>

lemma chromosome_keys_error:
  "chromosome_keys j = Inl e \<longleftrightarrow>
     \<not> is_object j \<and> e = TypeError
   \<or> is_object j \<and> member j ''chromosomes'' = None \<and> e = KeyError
   \<or> (\<exists>v. member j ''chromosomes'' = Some v \<and> \<not> is_object v \<and> e = AttributeError)"
  by (cases j)
     (auto simp: chromosome_keys_def is_object_def member_def split: option.splits json.splits)

lemma chromosome_keys_fails:
  "(\<exists>e. chromosome_keys j = Inl e) \<longleftrightarrow> \<not> has_chromosome_mapping j"
  by (cases j)
     (auto simp: chromosome_keys_def has_chromosome_mapping_def is_object_def member_def
           split: option.splits json.splits)

lemma init_error:
  "init cf gs mx mn so = Inl e \<longleftrightarrow>
     (\<exists>f. gs = Unopenable f \<and> e = open_error f)
   \<or> (\<exists>f. gs = Unloadable f \<and> e = load_error f)
   \<or> (\<exists>j. gs = Parsed j \<and> chromosome_keys j = Inl e)"
  by (cases gs) (auto simp: init_def split: sum.splits)

text \<open>
  C8, as stated, fails: the source has no \<^verbatim>\<open>ConfigError\<close>. The constructor lets the
  exception of the failing step through, a different one for each of the three causes; and
  it also fails for a file that is there, well formed and complete, but may not be read.
\<close>

theorem registry_load_counterexample:
  "init None (Unopenable NoSuchFile) 1000 2 False = Inl FileNotFoundError
   \<and> init None (Unloadable NotJSON) 1000 2 False = Inl JSONDecodeError
   \<and> init None (Parsed (JObject [(''chr1'', JNumber 100)])) 1000 2 False = Inl KeyError
   \<and> init None (Unopenable NoPermission) 1000 2 False = Inl PermissionError"
  by code_simp

text \<open>
  C8, amended. The constructor fails exactly when the size reference file cannot be opened,
  cannot be loaded as JSON, or lacks the top-level mapping \<^verbatim>\<open>chromosomes\<close>. It fails with
  the exception of the step that failed: the exception of \<^verbatim>\<open>open\<close>; the exception of
  \<^verbatim>\<open>json.load\<close>; a \<^verbatim>\<open>TypeError\<close> exactly when the JSON value is not an object, a
  \<^verbatim>\<open>KeyError\<close> exactly when it is an object without a member \<^verbatim>\<open>chromosomes\<close>, an
  \<^verbatim>\<open>AttributeError\<close> exactly when this member is not an object. And \<^verbatim>\<open>main\<close> then ends
  with this exception and the world as it was: nothing has been written.
\<close>

theorem registry_load_failure:
  "(init cf gs mx mn so = Inl e \<longleftrightarrow>
       (\<exists>f. gs = Unopenable f \<and> e = open_error f)
     \<or> (\<exists>f. gs = Unloadable f \<and> e = load_error f)
     \<or> (\<exists>j. gs = Parsed j \<and> \<not> is_object j \<and> e = TypeError)
     \<or> (\<exists>j. gs = Parsed j \<and> is_object j \<and> member j ''chromosomes'' = None \<and> e = KeyError)
     \<or> (\<exists>j v. gs = Parsed j \<and> member j ''chromosomes'' = Some v \<and> \<not> is_object v
                \<and> e = AttributeError))
   \<and> ((\<exists>e. init cf gs mx mn so = Inl e) \<longleftrightarrow>
         (\<exists>f. gs = Unopenable f) \<or> (\<exists>f. gs = Unloadable f)
       \<or> (\<exists>j. gs = Parsed j \<and> \<not> has_chromosome_mapping j))
   \<and> (init cf gs mx mn so = Inl e \<longrightarrow> main iter cf gs out mx mn so w = (Inl e, w))"
proof (intro conjI impI)
  show "init cf gs mx mn so = Inl e \<longleftrightarrow>
       (\<exists>f. gs = Unopenable f \<and> e = open_error f)
     \<or> (\<exists>f. gs = Unloadable f \<and> e = load_error f)
     \<or> (\<exists>j. gs = Parsed j \<and> \<not> is_object j \<and> e = TypeError)
     \<or> (\<exists>j. gs = Parsed j \<and> is_object j \<and> member j ''chromosomes'' = None \<and> e = KeyError)
     \<or> (\<exists>j v. gs = Parsed j \<and> member j ''chromosomes'' = Some v \<and> \<not> is_object v
                \<and> e = AttributeError)"
    unfolding init_error chromosome_keys_error by blast
  show "(\<exists>e. init cf gs mx mn so = Inl e) \<longleftrightarrow>
         (\<exists>f. gs = Unopenable f) \<or> (\<exists>f. gs = Unloadable f)
       \<or> (\<exists>j. gs = Parsed j \<and> \<not> has_chromosome_mapping j)"
    unfolding init_error chromosome_keys_fails[symmetric] by blast
next
  assume "init cf gs mx mn so = Inl e"
  then show "main iter cf gs out mx mn so w = (Inl e, w)"
    by (simp add: main_def)
qed

theorem registry_load_failure_witness:
  "init (Some [example_line]) (Unopenable NoSuchFile) 10 2 False = Inl FileNotFoundError
   \<and> main slot_order (Some [example_line]) (Unopenable NoSuchFile) ''out'' 10 2 False empty_world
       = (Inl FileNotFoundError, empty_world)
   \<and> init (Some [example_line]) (Parsed (JObject [(''chromosomes'', JArray [])])) 10 2 False
       = Inl AttributeError
   \<and> main slot_order (Some [example_line]) (Parsed (JObject [(''chromosomes'', JArray [])])) ''out''
         10 2 False empty_world
       = (Inl AttributeError, empty_world)"
proof -
  have i: "init (Some [example_line]) (Unopenable NoSuchFile) 10 2 False = Inl FileNotFoundError"
    by (simp add: init_def)
  have m: "member (JObject [(''chromosomes'', JArray [])]) ''chromosomes'' = Some (JArray [])"
    and o: "\<not> is_object (JArray [])"
    by (simp_all add: member_def is_object_def)
  from registry_load_failure[where cf = "Some [example_line]"
      and gs = "Parsed (JObject [(''chromosomes'', JArray [])])" and mx = 10 and mn = 2
      and so = False and e = AttributeError] m o
  have j: "init (Some [example_line]) (Parsed (JObject [(''chromosomes'', JArray [])])) 10 2 False
       = Inl AttributeError"
    by blast
  from registry_load_failure[where cf = "Some [example_line]" and gs = "Unopenable NoSuchFile"
      and mx = 10 and mn = 2 and so = False and e = FileNotFoundError and iter = slot_order
      and out = "''out''" and w = empty_world] i
  have a: "main slot_order (Some [example_line]) (Unopenable NoSuchFile) ''out'' 10 2 False empty_world
       = (Inl FileNotFoundError, empty_world)"
    by blast
  from registry_load_failure[where cf = "Some [example_line]"
      and gs = "Parsed (JObject [(''chromosomes'', JArray [])])" and mx = 10 and mn = 2
      and so = False and e = AttributeError and iter = slot_order
      and out = "''out''" and w = empty_world] j
  have b: "main slot_order (Some [example_line]) (Parsed (JObject [(''chromosomes'', JArray [])])) ''out''
         10 2 False empty_world = (Inl AttributeError, empty_world)"
    by blast
  from i a j b show ?thesis by simp
qed

end
